theory Spec2Isabelle
  imports Main
begin

section \<open>The snake game's state engine (\<open>snake_game/logic.py\<close>)\<close>

text \<open>
  The engine is a set of pure Python functions over an immutable \<open>GameState\<close>. Python's
  unbounded integers are \<open>int\<close>, a point and a direction are pairs of them, and a list of
  points is a \<open>point list\<close> with the head of the snake first. An exception is a value
  \<open>Inl e\<close> of the result type \<open>error + 'a\<close>.
\<close>

subsection \<open>Data model\<close>

type_synonym point = "int \<times> int"
type_synonym direction = "int \<times> int"

text \<open>
  \<open>ValueError msg\<close> is Python's \<open>ValueError(msg)\<close>, raised by \<open>create_initial_state\<close> and
  \<open>spawn_food\<close>; \<open>IndexError\<close> is what \<open>state.snake[0]\<close> raises on an empty list;
  \<open>ChoiceError\<close> stands for any exception that the random source's \<open>choice\<close> raises itself.
\<close>

datatype error = ValueError string | IndexError | ChoiceError

definition InvalidBoardError :: error where
  "InvalidBoardError = ValueError ''Board must be at least 4x4.''"

definition BoardFullError :: error where
  "BoardFullError = ValueError ''No space left to spawn food.''"

record GameState =
  width :: int
  height :: int
  snake :: "point list"
  food :: point
  direction :: direction
  score :: int
  game_over :: bool
  lives :: int
  max_lives :: int

definition UP :: direction where "UP = (0, -1)"
definition DOWN :: direction where "DOWN = (0, 1)"
definition LEFT :: direction where "LEFT = (-1, 0)"
definition RIGHT :: direction where "RIGHT = (1, 0)"

subsection \<open>The random source\<close>

text \<open>
  The source passes an object with one method \<open>choice(seq)\<close> (the protocol
  \<open>SupportsChoice\<close>; \<open>rng or Random()\<close> replaces a missing one by a fresh \<open>Random()\<close>). The
  object has a state of its own that every call may change, so the model passes that state
  (of any type \<open>'r\<close>) in and out. The engine calls \<open>choice\<close> at three types: on a list of
  integers (\<open>list(range(width))\<close>), on a list of direction lists (\<open>[directions]\<close>) and on a
  list of points (\<open>available\<close>); the record has the method once per type. \<open>None\<close> is a call
  that raises, as \<open>Random().choice([])\<close> does. A source may return a value that is not in the
  sequence, but the value is of the type of the elements: the \<open>FixedChoice\<close> of
  \<open>tests/test_logic.py\<close>, which answers every call with one point, is such a source only
  where \<open>choice\<close> is called on points (in \<open>_respawn_snake\<close> its point would be unpacked as
  a list of directions, a \<open>TypeError\<close> in Python).
\<close>

record 'r SupportsChoice =
  choice_int :: "int list \<Rightarrow> 'r \<Rightarrow> (int \<times> 'r) option"
  choice_dirs :: "direction list list \<Rightarrow> 'r \<Rightarrow> (direction list \<times> 'r) option"
  choice_point :: "point list \<Rightarrow> 'r \<Rightarrow> (point \<times> 'r) option"

text \<open>
  A random source is honest when, on every non-empty sequence and in every state, its
  \<open>choice\<close> returns an element of the sequence it is given.
\<close>

definition honest :: "'r SupportsChoice \<Rightarrow> bool" where
  "honest P \<longleftrightarrow>
     (\<forall>xs r. xs \<noteq> [] \<longrightarrow> (\<exists>x r'. choice_int P xs r = Some (x, r') \<and> x \<in> set xs)) \<and>
     (\<forall>xs r. xs \<noteq> [] \<longrightarrow> (\<exists>x r'. choice_dirs P xs r = Some (x, r') \<and> x \<in> set xs)) \<and>
     (\<forall>xs r. xs \<noteq> [] \<longrightarrow> (\<exists>x r'. choice_point P xs r = Some (x, r') \<and> x \<in> set xs))"

subsection \<open>The functions of \<open>logic.py\<close>\<close>

text \<open>\<open>list(range(n))\<close>: the integers \<open>0, ..., n - 1\<close>, empty when \<open>n \<le> 0\<close>.\<close>

definition py_range :: "int \<Rightarrow> int list" where
  "py_range n = [0..n - 1]"

definition initial_snake :: "int \<Rightarrow> int \<Rightarrow> point list" where
  "initial_snake w h =
     (let center = (w div 2, h div 2)
      in [center, (fst center - 1, snd center), (fst center - 2, snd center)])"

text \<open>The list \<open>directions\<close> of \<open>_respawn_snake\<close>, in the order the source writes it.\<close>

definition directions :: "direction list" where
  "directions = [(1, 0), (-1, 0), (0, 1), (0, -1)]"

text \<open>
  The test of the inner loop of \<open>_respawn_snake\<close>: the cell next to the last segment in
  direction \<open>(dx, dy)\<close> is on the board and not yet in the snake.
\<close>

definition can_extend :: "int \<Rightarrow> int \<Rightarrow> point list \<Rightarrow> direction \<Rightarrow> bool" where
  "can_extend w h snk d =
     (let next_x = fst (last snk) + fst d; next_y = snd (last snk) + snd d
      in 0 \<le> next_x \<and> next_x < w \<and> 0 \<le> next_y \<and> next_y < h \<and> (next_x, next_y) \<notin> set snk)"

text \<open>
  The loop \<open>for _ in range(n)\<close> of \<open>_respawn_snake\<close>, by recursion on the iterations left.
  Each iteration draws \<open>picker.choice([directions])\<close> and walks the list it gets back: the
  first direction that passes the test extends the snake (\<open>break\<close>); when none does (the
  \<open>else\<close> of the \<open>for\<close>) a free cell is drawn from \<open>available\<close> (column by column: \<open>x\<close> is the
  outer loop), and when there is none the outer loop is left (\<open>break\<close>). The snake is never
  empty here, so \<open>snake[-1]\<close> is \<open>last\<close>.
\<close>

fun respawn_loop ::
  "nat \<Rightarrow> int \<Rightarrow> int \<Rightarrow> 'r SupportsChoice \<Rightarrow> point list \<Rightarrow> 'r \<Rightarrow> error + (point list \<times> 'r)" where
  "respawn_loop 0 w h P snk rng = Inr (snk, rng)"
| "respawn_loop (Suc n) w h P snk rng =
     (case choice_dirs P [directions] rng of
        None \<Rightarrow> Inl ChoiceError
      | Some (ds, rng1) \<Rightarrow>
          (case find (can_extend w h snk) ds of
             Some d \<Rightarrow>
               respawn_loop n w h P
                 (snk @ [(fst (last snk) + fst d, snd (last snk) + snd d)]) rng1
           | None \<Rightarrow>
               (let available =
                      [(x, y). x \<leftarrow> py_range w, y \<leftarrow> py_range h, (x, y) \<notin> set snk]
                in if available \<noteq> [] then
                     (case choice_point P available rng1 of
                        None \<Rightarrow> Inl ChoiceError
                      | Some (p, rng2) \<Rightarrow> respawn_loop n w h P (snk @ [p]) rng2)
                   else Inr (snk, rng1))))"

definition respawn_snake ::
  "int \<Rightarrow> int \<Rightarrow> int \<Rightarrow> 'r SupportsChoice \<Rightarrow> 'r \<Rightarrow> error + (point list \<times> 'r)" where
  "respawn_snake w h len P rng =
     (case choice_int P (py_range w) rng of
        None \<Rightarrow> Inl ChoiceError
      | Some (start_x, rng1) \<Rightarrow>
          (case choice_int P (py_range h) rng1 of
             None \<Rightarrow> Inl ChoiceError
           | Some (start_y, rng2) \<Rightarrow>
               respawn_loop (nat (min (len - 1) (w * h - 1))) w h P [(start_x, start_y)] rng2))"

definition direction_from_snake :: "point list \<Rightarrow> direction" where
  "direction_from_snake snk =
     (if length snk < 2 then RIGHT
      else (fst (snk ! 0) - fst (snk ! 1), snd (snk ! 0) - snd (snk ! 1)))"

definition update_direction :: "direction \<Rightarrow> direction \<Rightarrow> direction" where
  "update_direction current requested =
     (if requested = (- fst current, - snd current) then current else requested)"

text \<open>\<open>available\<close> is built row by row here: \<open>y\<close> is the outer loop.\<close>

definition spawn_food ::
  "point list \<Rightarrow> int \<Rightarrow> int \<Rightarrow> 'r SupportsChoice \<Rightarrow> 'r \<Rightarrow> error + (point \<times> 'r)" where
  "spawn_food snk w h P rng =
     (let available = [(x, y). y \<leftarrow> py_range h, x \<leftarrow> py_range w, (x, y) \<notin> set snk]
      in if available = [] then Inl (ValueError ''No space left to spawn food.'')
         else (case choice_point P available rng of
                 None \<Rightarrow> Inl ChoiceError
               | Some (p, rng') \<Rightarrow> Inr (p, rng')))"

text \<open>
  \<open>GameState(width=..., height=..., snake=..., food=..., direction=RIGHT)\<close> leaves the other
  fields to the defaults of the dataclass: \<open>score = 0\<close>, \<open>game_over = False\<close>, \<open>lives = 3\<close>,
  \<open>max_lives = 3\<close>.
\<close>

definition create_initial_state ::
  "int \<Rightarrow> int \<Rightarrow> 'r SupportsChoice \<Rightarrow> 'r \<Rightarrow> error + (GameState \<times> 'r)" where
  "create_initial_state w h P rng =
     (if w < 4 \<or> h < 4 then Inl (ValueError ''Board must be at least 4x4.'')
      else
        (let snk = initial_snake w h
         in case spawn_food snk w h P rng of
              Inl e \<Rightarrow> Inl e
            | Inr (fd, rng') \<Rightarrow>
                Inr (\<lparr>width = w, height = h, snake = snk, food = fd, direction = RIGHT,
                      score = 0, game_over = False, lives = 3, max_lives = 3\<rparr>, rng')))"

text \<open>The call with no explicit size: the defaults \<open>width = 20\<close>, \<open>height = 20\<close>.\<close>

definition create_initial_state_default ::
  "'r SupportsChoice \<Rightarrow> 'r \<Rightarrow> error + (GameState \<times> 'r)" where
  "create_initial_state_default P rng = create_initial_state 20 20 P rng"

definition after_collision ::
  "GameState \<Rightarrow> 'r SupportsChoice \<Rightarrow> 'r \<Rightarrow> error + (GameState \<times> 'r)" where
  "after_collision state P rng =
     (let next_lives = lives state - 1
      in if next_lives \<le> 0 then
           Inr (\<lparr>width = width state, height = height state, snake = snake state,
                 food = food state, direction = direction state, score = score state,
                 game_over = True, lives = 0, max_lives = max_lives state\<rparr>, rng)
         else
           (case respawn_snake (width state) (height state) (int (length (snake state))) P rng of
              Inl e \<Rightarrow> Inl e
            | Inr (next_snake, rng1) \<Rightarrow>
                (case spawn_food next_snake (width state) (height state) P rng1 of
                   Inl e \<Rightarrow> Inl e
                 | Inr (next_food, rng2) \<Rightarrow>
                     Inr (\<lparr>width = width state, height = height state, snake = next_snake,
                           food = next_food, direction = direction_from_snake next_snake,
                           score = score state, game_over = False, lives = next_lives,
                           max_lives = max_lives state\<rparr>, rng2))))"

text \<open>
  The parts of \<open>step_state\<close> that the statements below name: the direction of this tick
  (lines 148 to 150), the cell the head moves to (lines 152 and 153), the wall test (lines
  155 to 160) and the body the head is compared with (lines 176 and 177; \<open>snake[:-1]\<close> is
  \<open>butlast\<close>).
\<close>

definition tick_direction :: "GameState \<Rightarrow> direction option \<Rightarrow> direction" where
  "tick_direction state requested_direction =
     (case requested_direction of
        None \<Rightarrow> direction state
      | Some requested \<Rightarrow> update_direction (direction state) requested)"

definition next_head_of :: "point \<Rightarrow> direction \<Rightarrow> point" where
  "next_head_of hd_cell d = (fst hd_cell + fst d, snd hd_cell + snd d)"

definition outside_board :: "GameState \<Rightarrow> point \<Rightarrow> bool" where
  "outside_board state next_head \<longleftrightarrow>
     fst next_head < 0 \<or> fst next_head \<ge> width state \<or>
     snd next_head < 0 \<or> snd next_head \<ge> height state"

definition body_for_collision :: "GameState \<Rightarrow> point \<Rightarrow> point list" where
  "body_for_collision state next_head =
     (if next_head = food state then snake state else butlast (snake state))"

text \<open>
  \<open>step_state\<close>. The state handed to \<open>_after_collision\<close> is the input state with the
  direction of this tick. \<open>next_snake.pop()\<close> drops the last element of
  \<open>[next_head] + state.snake\<close>.
\<close>

definition step_state ::
  "GameState \<Rightarrow> direction option \<Rightarrow> 'r SupportsChoice \<Rightarrow> 'r \<Rightarrow> error + (GameState \<times> 'r)" where
  "step_state state requested_direction P rng =
     (if game_over state then Inr (state, rng)
      else
        (case snake state of
           [] \<Rightarrow> Inl IndexError
         | hd_cell # _ \<Rightarrow>
             (let d = tick_direction state requested_direction;
                  next_head = next_head_of hd_cell d;
                  collided = \<lparr>width = width state, height = height state, snake = snake state,
                              food = food state, direction = d, score = score state,
                              game_over = game_over state, lives = lives state,
                              max_lives = max_lives state\<rparr>
              in if outside_board state next_head then after_collision collided P rng
                 else if next_head \<in> set (body_for_collision state next_head)
                 then after_collision collided P rng
                 else
                   (let next_snake = next_head # snake state
                    in if next_head = food state then
                         (if int (length next_snake) = width state * height state then
                            Inr (\<lparr>width = width state, height = height state,
                                  snake = next_snake, food = food state, direction = d,
                                  score = score state + 1, game_over = True,
                                  lives = lives state, max_lives = max_lives state\<rparr>, rng)
                          else
                            (case spawn_food next_snake (width state) (height state) P rng of
                               Inl e \<Rightarrow> Inl e
                             | Inr (next_food, rng') \<Rightarrow>
                                 Inr (\<lparr>width = width state, height = height state,
                                       snake = next_snake, food = next_food, direction = d,
                                       score = score state + 1, game_over = False,
                                       lives = lives state, max_lives = max_lives state\<rparr>,
                                      rng')))
                       else
                         Inr (\<lparr>width = width state, height = height state,
                               snake = butlast next_snake, food = food state, direction = d,
                               score = score state, game_over = False, lives = lives state,
                               max_lives = max_lives state\<rparr>, rng)))))"

subsection \<open>Playing a game\<close>

text \<open>
  A game is \<open>create_initial_state\<close> followed by any number of \<open>step_state\<close> calls. Each call
  comes with the direction requested for the tick (or none) and with the state the random
  source is in when the call is made; the states a game passes through are the reachable
  ones.
\<close>

fun steps ::
  "'r SupportsChoice \<Rightarrow> (direction option \<times> 'r) list \<Rightarrow> GameState \<Rightarrow> error + GameState" where
  "steps P [] state = Inr state"
| "steps P (tick # ticks) state =
     (case step_state state (fst tick) P (snd tick) of
        Inl e \<Rightarrow> Inl e
      | Inr (state', _) \<Rightarrow> steps P ticks state')"

definition play ::
  "int \<Rightarrow> int \<Rightarrow> 'r SupportsChoice \<Rightarrow> 'r \<Rightarrow> (direction option \<times> 'r) list \<Rightarrow> error + GameState" where
  "play w h P rng ticks =
     (case create_initial_state w h P rng of
        Inl e \<Rightarrow> Inl e
      | Inr (state, _) \<Rightarrow> steps P ticks state)"

subsection \<open>Invariants of a game\<close>

text \<open>
  \<open>has_room\<close>: the board is not empty, the snake has at least one segment, and as long as
  the game goes on the snake is shorter than the board is large. \<open>well_formed\<close> adds that no
  segment occurs twice and that the food lies off the snake, except in the state that ends
  the game with the board filled.
\<close>

definition has_room :: "GameState \<Rightarrow> bool" where
  "has_room state \<longleftrightarrow>
     1 \<le> width state \<and> 1 \<le> height state \<and> snake state \<noteq> [] \<and>
     (game_over state \<or> int (length (snake state)) < width state * height state)"

definition well_formed :: "GameState \<Rightarrow> bool" where
  "well_formed state \<longleftrightarrow>
     has_room state \<and> distinct (snake state) \<and>
     (food state \<notin> set (snake state) \<or>
      (game_over state \<and> int (length (snake state)) = width state * height state))"

subsection \<open>Three random sources\<close>

text \<open>
  \<open>first_choice\<close> always returns the first element of the sequence and \<open>last_choice\<close> the
  last one; neither has a state. \<open>wish_choice\<close> carries a cell as its state and returns it
  whenever it is in the sequence of points it is asked to choose from, and the first element
  otherwise. All three raise on an empty sequence.
\<close>

definition pick_first :: "'a list \<Rightarrow> 'r \<Rightarrow> ('a \<times> 'r) option" where
  "pick_first xs r = (case xs of [] \<Rightarrow> None | x # _ \<Rightarrow> Some (x, r))"

definition first_choice :: "unit SupportsChoice" where
  "first_choice = \<lparr>choice_int = pick_first, choice_dirs = pick_first, choice_point = pick_first\<rparr>"

definition pick_last :: "'a list \<Rightarrow> 'r \<Rightarrow> ('a \<times> 'r) option" where
  "pick_last xs r = (if xs = [] then None else Some (last xs, r))"

definition last_choice :: "unit SupportsChoice" where
  "last_choice = \<lparr>choice_int = pick_last, choice_dirs = pick_last, choice_point = pick_last\<rparr>"

definition pick_wish :: "point list \<Rightarrow> point \<Rightarrow> (point \<times> point) option" where
  "pick_wish xs r = (if r \<in> set xs then Some (r, r) else pick_first xs r)"

definition wish_choice :: "point SupportsChoice" where
  "wish_choice = \<lparr>choice_int = pick_first, choice_dirs = pick_first, choice_point = pick_wish\<rparr>"

subsection \<open>Some states\<close>

text \<open>
  The states of \<open>test_wall_collision_loses_one_life\<close> and
  \<open>test_self_collision_on_last_life_ends_game\<close> in \<open>tests/test_logic.py\<close>.
\<close>

definition wall_collision_state :: GameState where
  "wall_collision_state =
     \<lparr>width = 5, height = 5, snake = [(4, 2), (3, 2), (2, 2), (1, 2), (0, 2)], food = (0, 0),
      direction = RIGHT, score = 0, game_over = False, lives = 3, max_lives = 3\<rparr>"

definition self_collision_state :: GameState where
  "self_collision_state =
     \<lparr>width = 8, height = 8, snake = [(3, 3), (3, 4), (4, 4), (4, 3)], food = (7, 7),
      direction = DOWN, score = 0, game_over = False, lives = 1, max_lives = 3\<rparr>"

text \<open>
  A game on the 4 by 4 board in which the snake eats at every tick: \<open>filling_ticks\<close> gives,
  for each tick, the requested direction and the cell the random source would like the next
  food on. After these twelve ticks the snake covers all cells but the food's
  (\<open>last_food_state\<close>), and one more tick fills the board (\<open>filled_board_state\<close>).
\<close>

definition filling_ticks :: "(direction option \<times> point) list" where
  "filling_ticks =
     [(Some UP, (1, 1)), (Some LEFT, (0, 1)), (Some LEFT, (0, 0)), (Some UP, (1, 0)),
      (Some RIGHT, (2, 0)), (Some RIGHT, (3, 0)), (Some RIGHT, (3, 1)), (Some DOWN, (3, 2)),
      (Some DOWN, (3, 3)), (Some DOWN, (2, 3)), (Some LEFT, (1, 3)), (Some LEFT, (0, 3))]"

definition last_food_state :: GameState where
  "last_food_state =
     \<lparr>width = 4, height = 4,
      snake = [(1, 3), (2, 3), (3, 3), (3, 2), (3, 1), (3, 0), (2, 0), (1, 0), (0, 0),
               (0, 1), (1, 1), (2, 1), (2, 2), (1, 2), (0, 2)],
      food = (0, 3), direction = LEFT, score = 12, game_over = False, lives = 3,
      max_lives = 3\<rparr>"

definition filled_board_state :: GameState where
  "filled_board_state =
     \<lparr>width = 4, height = 4,
      snake = [(0, 3), (1, 3), (2, 3), (3, 3), (3, 2), (3, 1), (3, 0), (2, 0), (1, 0),
               (0, 0), (0, 1), (1, 1), (2, 1), (2, 2), (1, 2), (0, 2)],
      food = (0, 3), direction = LEFT, score = 13, game_over = True, lives = 3,
      max_lives = 3\<rparr>"

section \<open>Properties\<close>

subsection \<open>The three random sources are honest\<close>

lemma honest_first_choice: "honest first_choice"
  unfolding honest_def first_choice_def pick_first_def
  by (auto split: list.splits)

lemma honest_last_choice: "honest last_choice"
  unfolding honest_def last_choice_def pick_last_def by simp

lemma honest_wish_choice: "honest wish_choice"
  unfolding honest_def wish_choice_def pick_wish_def pick_first_def
  by (auto split: list.splits)

subsection \<open>Free cells\<close>

text \<open>
  Both \<open>available\<close> lists hold the cells of the board that are not in the snake. A snake
  that leaves no cell free is at least as long as the board is large, so a shorter snake
  leaves one; and a snake of distinct cells of the board that is as long as the board is
  large leaves none.
\<close>

lemma set_py_range: "set (py_range n) = {0..<n}"
  by (auto simp: py_range_def)

lemma set_available_columns:
  "set [(x, y). x \<leftarrow> py_range w, y \<leftarrow> py_range h, (x, y) \<notin> set snk] =
   ({0..<w} \<times> {0..<h}) - set snk"
  by (auto simp: set_py_range)

lemma set_available_rows:
  "set [(x, y). y \<leftarrow> py_range h, x \<leftarrow> py_range w, (x, y) \<notin> set snk] =
   ({0..<w} \<times> {0..<h}) - set snk"
  by (auto simp: set_py_range)

lemma covered_board_length:
  assumes "{0..<w} \<times> {0..<h} \<subseteq> set snk" and "0 \<le> w" and "0 \<le> h"
  shows "w * h \<le> int (length snk)"
proof -
  have "card ({0..<w} \<times> {0..<h}) \<le> card (set snk)"
    using assms(1) by (intro card_mono) simp_all
  also have "\<dots> \<le> length snk"
    by (rule card_length)
  finally have "nat w * nat h \<le> length snk"
    by (simp add: card_cartesian_product)
  then have "int (nat w) * int (nat h) \<le> int (length snk)"
    by (metis of_nat_mult of_nat_le_iff)
  then show ?thesis
    using assms(2,3) by simp
qed

lemma filled_board:
  assumes "distinct snk" and "set snk \<subseteq> {0..<w} \<times> {0..<h}" and "0 \<le> w" and "0 \<le> h"
    and "w * h \<le> int (length snk)"
  shows "{0..<w} \<times> {0..<h} \<subseteq> set snk"
proof -
  have c: "card ({0..<w} \<times> {0..<h}) = nat w * nat h"
    by (simp add: card_cartesian_product)
  have "int (nat w) * int (nat h) \<le> int (length snk)"
    using assms(3,4,5) by simp
  then have "nat w * nat h \<le> length snk"
    by (metis of_nat_mult of_nat_le_iff)
  then have "card ({0..<w} \<times> {0..<h}) \<le> card (set snk)"
    using assms(1) by (simp add: c distinct_card)
  with assms(2) have "set snk = {0..<w} \<times> {0..<h}"
    by (intro card_seteq) simp_all
  then show ?thesis by simp
qed

lemma available_columns_nonempty:
  assumes "0 \<le> w" and "0 \<le> h" and "int (length snk) < w * h"
  shows "[(x, y). x \<leftarrow> py_range w, y \<leftarrow> py_range h, (x, y) \<notin> set snk] \<noteq> []"
proof
  define available where "available = [(x, y). x \<leftarrow> py_range w, y \<leftarrow> py_range h, (x, y) \<notin> set snk]"
  assume "[(x, y). x \<leftarrow> py_range w, y \<leftarrow> py_range h, (x, y) \<notin> set snk] = []"
  then have "available = []"
    by (simp only: available_def)
  then have "set available = {}"
    by simp
  then have "{0..<w} \<times> {0..<h} \<subseteq> set snk"
    unfolding available_def set_available_columns by blast
  then have "w * h \<le> int (length snk)"
    using assms(1,2) by (rule covered_board_length)
  with assms(3) show False by simp
qed

lemma available_rows_nonempty:
  assumes "0 \<le> w" and "0 \<le> h" and "int (length snk) < w * h"
  shows "[(x, y). y \<leftarrow> py_range h, x \<leftarrow> py_range w, (x, y) \<notin> set snk] \<noteq> []"
proof
  define available where "available = [(x, y). y \<leftarrow> py_range h, x \<leftarrow> py_range w, (x, y) \<notin> set snk]"
  assume "[(x, y). y \<leftarrow> py_range h, x \<leftarrow> py_range w, (x, y) \<notin> set snk] = []"
  then have "available = []"
    by (simp only: available_def)
  then have "set available = {}"
    by simp
  then have "{0..<w} \<times> {0..<h} \<subseteq> set snk"
    unfolding available_def set_available_rows by blast
  then have "w * h \<le> int (length snk)"
    using assms(1,2) by (rule covered_board_length)
  with assms(3) show False by simp
qed

subsection \<open>What an honest source returns\<close>

lemma honest_dirs:
  assumes "honest P"
  obtains rng1 where "choice_dirs P [directions] rng = Some (directions, rng1)"
proof -
  from assms have "\<exists>x r'. choice_dirs P [directions] rng = Some (x, r') \<and> x \<in> set [directions]"
    unfolding honest_def by blast
  then show ?thesis
    using that by auto
qed

lemma honest_point:
  "honest P \<Longrightarrow> xs \<noteq> [] \<Longrightarrow>
   \<exists>p rng'. choice_point P xs rng = Some (p, rng') \<and> p \<in> set xs"
  unfolding honest_def by blast

lemma honest_int:
  "honest P \<Longrightarrow> xs \<noteq> [] \<Longrightarrow>
   \<exists>x rng'. choice_int P xs rng = Some (x, rng') \<and> x \<in> set xs"
  unfolding honest_def by blast

subsection \<open>Respawning\<close>

text \<open>
  With an honest source every iteration of the respawn loop appends one cell that is on the
  board and not yet in the snake, as long as the snake is shorter than the board is large.
  Whatever the source, an iteration that returns has appended one cell, and the loop fails
  only where the source does.
\<close>

lemma respawn_loop_ok:
  assumes P: "honest P" and w: "0 \<le> w" and h: "0 \<le> h"
  shows "int (length snk) + int n \<le> w * h \<Longrightarrow> distinct snk \<Longrightarrow>
         set snk \<subseteq> {0..<w} \<times> {0..<h} \<Longrightarrow>
         \<exists>snk' rng'. respawn_loop n w h P snk rng = Inr (snk', rng') \<and>
           length snk' = length snk + n \<and> distinct snk' \<and> set snk' \<subseteq> {0..<w} \<times> {0..<h}"
proof (induction n arbitrary: snk rng)
  case 0
  then show ?case by simp
next
  case (Suc n)
  obtain rng1 where dirs: "choice_dirs P [directions] rng = Some (directions, rng1)"
    using P by (rule honest_dirs)
  show ?case
  proof (cases "find (can_extend w h snk) directions")
    case (Some d)
    define p where "p = (fst (last snk) + fst d, snd (last snk) + snd d)"
    from Some have "can_extend w h snk d"
      by (auto simp: find_Some_iff)
    then have fresh: "p \<notin> set snk" and on_board: "p \<in> {0..<w} \<times> {0..<h}"
      by (auto simp: can_extend_def p_def Let_def)
    have "\<exists>snk' rng'. respawn_loop n w h P (snk @ [p]) rng1 = Inr (snk', rng') \<and>
            length snk' = length (snk @ [p]) + n \<and> distinct snk' \<and>
            set snk' \<subseteq> {0..<w} \<times> {0..<h}"
      using Suc.prems fresh on_board by (intro Suc.IH) auto
    then show ?thesis
      using dirs Some by (simp add: p_def)
  next
    case None
    define available where
      "available = [(x, y). x \<leftarrow> py_range w, y \<leftarrow> py_range h, (x, y) \<notin> set snk]"
    have "available \<noteq> []"
    proof
      assume "available = []"
      then have "set available = {}" by simp
      then have "{0..<w} \<times> {0..<h} \<subseteq> set snk"
        unfolding available_def set_available_columns by blast
      then have "w * h \<le> int (length snk)"
        using w h by (rule covered_board_length)
      with Suc.prems(1) show False by simp
    qed
    then obtain p rng2 where pick: "choice_point P available rng1 = Some (p, rng2)"
      and "p \<in> set available"
      using honest_point[OF P, of available rng1] by auto
    then have fresh: "p \<notin> set snk" and on_board: "p \<in> {0..<w} \<times> {0..<h}"
      unfolding available_def set_available_columns by auto
    have "\<exists>snk' rng'. respawn_loop n w h P (snk @ [p]) rng2 = Inr (snk', rng') \<and>
            length snk' = length (snk @ [p]) + n \<and> distinct snk' \<and>
            set snk' \<subseteq> {0..<w} \<times> {0..<h}"
      using Suc.prems fresh on_board by (intro Suc.IH) auto
    then show ?thesis
      using dirs None pick \<open>available \<noteq> []\<close> by (simp add: available_def)
  qed
qed

lemma respawn_snake_ok:
  assumes P: "honest P" and w: "1 \<le> w" and h: "1 \<le> h" and len: "1 \<le> len"
  shows "\<exists>snk rng'. respawn_snake w h len P rng = Inr (snk, rng') \<and>
           int (length snk) = min len (w * h) \<and> distinct snk \<and>
           set snk \<subseteq> {0..<w} \<times> {0..<h}"
proof -
  have "py_range w \<noteq> []" and "py_range h \<noteq> []"
    using w h by (auto simp: py_range_def upto.simps)
  obtain sx rng1 where sx: "choice_int P (py_range w) rng = Some (sx, rng1)"
    and sx_in: "sx \<in> set (py_range w)"
    using honest_int[OF P \<open>py_range w \<noteq> []\<close>, of rng] by auto
  obtain sy rng2 where sy: "choice_int P (py_range h) rng1 = Some (sy, rng2)"
    and sy_in: "sy \<in> set (py_range h)"
    using honest_int[OF P \<open>py_range h \<noteq> []\<close>, of rng1] by auto
  define n where "n = nat (min (len - 1) (w * h - 1))"
  have wh: "1 \<le> w * h"
    using w h mult_mono[of 1 w 1 h] by simp
  have n: "int n = min len (w * h) - 1"
    using len wh by (simp add: n_def min_def)
  have "\<exists>snk rng'. respawn_loop n w h P [(sx, sy)] rng2 = Inr (snk, rng') \<and>
          length snk = length [(sx, sy)] + n \<and> distinct snk \<and> set snk \<subseteq> {0..<w} \<times> {0..<h}"
    using P w h sx_in sy_in n by (intro respawn_loop_ok) (auto simp: set_py_range)
  then show ?thesis
    using sx sy n by (auto simp: respawn_snake_def n_def[symmetric])
qed

lemma respawn_loop_length:
  assumes w: "0 \<le> w" and h: "0 \<le> h"
  shows "int (length snk) + int n \<le> w * h \<Longrightarrow>
         respawn_loop n w h P snk rng = Inr (snk', rng') \<Longrightarrow>
         length snk' = length snk + n"
proof (induction n arbitrary: snk rng)
  case 0
  then show ?case by simp
next
  case (Suc n)
  from Suc.prems(2) obtain ds rng1 where dirs: "choice_dirs P [directions] rng = Some (ds, rng1)"
    by (auto split: option.splits)
  show ?case
  proof (cases "find (can_extend w h snk) ds")
    case (Some d)
    with dirs Suc.prems(2)
    have "respawn_loop n w h P (snk @ [(fst (last snk) + fst d, snd (last snk) + snd d)]) rng1 =
            Inr (snk', rng')"
      by simp
    with Suc.prems(1) Suc.IH[of "snk @ [(fst (last snk) + fst d, snd (last snk) + snd d)]" rng1]
    show ?thesis by simp
  next
    case None
    define available where
      "available = [(x, y). x \<leftarrow> py_range w, y \<leftarrow> py_range h, (x, y) \<notin> set snk]"
    have ne: "available \<noteq> []"
      unfolding available_def using w h Suc.prems(1) by (intro available_columns_nonempty) simp_all
    with dirs None Suc.prems(2) obtain p rng2
      where "respawn_loop n w h P (snk @ [p]) rng2 = Inr (snk', rng')"
      by (auto simp: available_def split: option.splits)
    with Suc.prems(1) Suc.IH[of "snk @ [p]" rng2] show ?thesis
      by simp
  qed
qed

lemma respawn_loop_error:
  "respawn_loop n w h P snk rng = Inl e \<Longrightarrow> e = ChoiceError"
  by (induction n arbitrary: snk rng) (auto simp: Let_def split: option.splits if_splits)

lemma respawn_snake_error:
  "respawn_snake w h len P rng = Inl e \<Longrightarrow> e = ChoiceError"
  by (auto simp: respawn_snake_def split: option.splits dest: respawn_loop_error)

lemma respawn_snake_length:
  assumes w: "1 \<le> w" and h: "1 \<le> h" and len: "1 \<le> len"
    and r: "respawn_snake w h len P rng = Inr (snk, rng')"
  shows "int (length snk) = min len (w * h)"
proof -
  define n where "n = nat (min (len - 1) (w * h - 1))"
  have wh: "1 \<le> w * h"
    using w h mult_mono[of 1 w 1 h] by simp
  have n: "int n = min len (w * h) - 1"
    using len wh by (simp add: n_def min_def)
  from r obtain sx sy rng2 where "respawn_loop n w h P [(sx, sy)] rng2 = Inr (snk, rng')"
    by (auto simp: respawn_snake_def n_def split: option.splits)
  from respawn_loop_length[OF _ _ _ this] w h n have "length snk = length [(sx, sy)] + n"
    by simp
  with n show ?thesis by simp
qed

subsection \<open>Spawning food\<close>

lemma spawn_food_Inr:
  assumes "spawn_food snk w h P rng = Inr (fd, rng')"
  shows "\<not> {0..<w} \<times> {0..<h} \<subseteq> set snk"
    and "honest P \<Longrightarrow> fd \<notin> set snk \<and> fd \<in> {0..<w} \<times> {0..<h}"
proof -
  define available where
    "available = [(x, y). y \<leftarrow> py_range h, x \<leftarrow> py_range w, (x, y) \<notin> set snk]"
  from assms have ne: "available \<noteq> []"
    and pick: "choice_point P available rng = Some (fd, rng')"
    by (auto simp: spawn_food_def available_def split: if_splits option.splits)
  from ne have "set available \<noteq> {}" by simp
  then show "\<not> {0..<w} \<times> {0..<h} \<subseteq> set snk"
    unfolding available_def set_available_rows by blast
  assume "honest P"
  from honest_point[OF this ne, of rng] pick have "fd \<in> set available"
    by auto
  then show "fd \<notin> set snk \<and> fd \<in> {0..<w} \<times> {0..<h}"
    unfolding available_def set_available_rows by blast
qed

lemma spawn_food_ok:
  assumes "honest P" and "0 \<le> w" and "0 \<le> h" and "int (length snk) < w * h"
  shows "\<exists>fd rng'. spawn_food snk w h P rng = Inr (fd, rng')"
proof -
  define available where
    "available = [(x, y). y \<leftarrow> py_range h, x \<leftarrow> py_range w, (x, y) \<notin> set snk]"
  have ne: "available \<noteq> []"
  proof
    assume "available = []"
    then have "set available = {}" by simp
    then have "{0..<w} \<times> {0..<h} \<subseteq> set snk"
      unfolding available_def set_available_rows by blast
    then have "w * h \<le> int (length snk)"
      using assms(2,3) by (rule covered_board_length)
    with assms(4) show False by simp
  qed
  from honest_point[OF assms(1) ne, of rng] ne show ?thesis
    by (auto simp: spawn_food_def available_def[symmetric])
qed

lemma spawn_food_error:
  assumes "spawn_food snk w h P rng = Inl e"
  shows "e = ChoiceError \<or> (e = BoardFullError \<and> {0..<w} \<times> {0..<h} \<subseteq> set snk)"
proof -
  define available where
    "available = [(x, y). y \<leftarrow> py_range h, x \<leftarrow> py_range w, (x, y) \<notin> set snk]"
  show ?thesis
  proof (cases "available = []")
    case True
    then have "set available = {}"
      by simp
    then have "{0..<w} \<times> {0..<h} \<subseteq> set snk"
      unfolding available_def set_available_rows by blast
    with True assms show ?thesis
      by (simp add: spawn_food_def BoardFullError_def available_def[symmetric])
  next
    case False
    with assms show ?thesis
      by (auto simp: spawn_food_def available_def[symmetric] split: option.splits)
  qed
qed

lemma spawn_food_not_board_full:
  assumes "0 \<le> w" and "0 \<le> h" and "int (length snk) < w * h"
  shows "spawn_food snk w h P rng \<noteq> Inl BoardFullError"
proof
  assume "spawn_food snk w h P rng = Inl BoardFullError"
  from spawn_food_error[OF this] have "{0..<w} \<times> {0..<h} \<subseteq> set snk"
    by (simp add: BoardFullError_def)
  then have "w * h \<le> int (length snk)"
    using assms(1,2) by (rule covered_board_length)
  with assms(3) show False by simp
qed

lemma respawn_then_food:
  assumes P: "honest P" and len: "1 \<le> len"
    and r: "respawn_snake w h len P rng = Inr (snk, rng1)"
    and f: "spawn_food snk w h P rng1 = Inr (fd, rng2)"
  shows "int (length snk) = len \<and> len < w * h \<and> distinct snk \<and> fd \<notin> set snk"
proof -
  from spawn_food_Inr(1)[OF f] have w: "1 \<le> w" and h: "1 \<le> h"
    by (auto simp: subset_iff)
  from respawn_snake_ok[OF P w h len, of rng] r
  have l: "int (length snk) = min len (w * h)" and d: "distinct snk"
    and b: "set snk \<subseteq> {0..<w} \<times> {0..<h}"
    by auto
  have "len < w * h"
  proof (rule ccontr)
    assume "\<not> len < w * h"
    with l have "w * h \<le> int (length snk)" by simp
    with d b w h have "{0..<w} \<times> {0..<h} \<subseteq> set snk"
      by (intro filled_board) simp_all
    with spawn_food_Inr(1)[OF f] show False by simp
  qed
  with l d spawn_food_Inr(2)[OF f P] show ?thesis
    by simp
qed

lemma respawn_then_food_ok:
  assumes P: "honest P" and w: "1 \<le> w" and h: "1 \<le> h" and len: "1 \<le> len"
    and fits: "len < w * h"
  shows "\<exists>snk rng1 fd rng2. respawn_snake w h len P rng = Inr (snk, rng1) \<and>
           spawn_food snk w h P rng1 = Inr (fd, rng2)"
proof -
  from respawn_snake_ok[OF P w h len, of rng] obtain snk rng1
    where r: "respawn_snake w h len P rng = Inr (snk, rng1)"
      and l: "int (length snk) = min len (w * h)"
    by blast
  from l fits have "int (length snk) < w * h" by simp
  with P w h have "\<exists>fd rng2. spawn_food snk w h P rng1 = Inr (fd, rng2)"
    by (intro spawn_food_ok) simp_all
  with r show ?thesis by blast
qed

subsection \<open>Collision handling\<close>

lemma after_collision_fatal:
  "lives state - 1 \<le> 0 \<Longrightarrow>
   after_collision state P rng = Inr (state\<lparr>game_over := True, lives := 0\<rparr>, rng)"
  by (cases state) (simp add: after_collision_def)

lemma after_collision_Inr:
  assumes "after_collision state P rng = Inr (s', rng')"
  shows "(lives state - 1 \<le> 0 \<and> s' = state\<lparr>game_over := True, lives := 0\<rparr>) \<or>
         (\<not> lives state - 1 \<le> 0 \<and> \<not> game_over s' \<and> lives s' = lives state - 1 \<and>
          direction s' = direction_from_snake (snake s') \<and> score s' = score state)"
  using assms
  by (cases state) (auto simp: after_collision_def Let_def split: if_splits sum.splits)

lemma after_collision_respawn:
  assumes P: "honest P" and ne: "snake state \<noteq> []" and l: "\<not> lives state - 1 \<le> 0"
    and a: "after_collision state P rng = Inr (s', rng')"
  shows "\<exists>snk fd. s' = state\<lparr>snake := snk, food := fd, direction := direction_from_snake snk,
             game_over := False, lives := lives state - 1\<rparr> \<and>
           length snk = length (snake state) \<and>
           int (length snk) < width state * height state \<and> distinct snk \<and> fd \<notin> set snk"
proof -
  from a l obtain snk rng1 fd rng2
    where r: "respawn_snake (width state) (height state) (int (length (snake state))) P rng =
                Inr (snk, rng1)"
      and f: "spawn_food snk (width state) (height state) P rng1 = Inr (fd, rng2)"
      and s': "s' = \<lparr>width = width state, height = height state, snake = snk, food = fd,
                    direction = direction_from_snake snk, score = score state,
                    game_over = False, lives = lives state - 1, max_lives = max_lives state\<rparr>"
    by (auto simp: after_collision_def Let_def split: sum.splits)
  from ne have "1 \<le> int (length (snake state))"
    by (cases "snake state") simp_all
  from respawn_then_food[OF P this r f] s' show ?thesis
    by (cases state) auto
qed

lemma after_collision_respawn_ok:
  assumes "honest P" and "1 \<le> width state" and "1 \<le> height state" and "snake state \<noteq> []"
    and "int (length (snake state)) < width state * height state"
    and "\<not> lives state - 1 \<le> 0"
  shows "\<exists>s' rng'. after_collision state P rng = Inr (s', rng')"
proof -
  from assms(4) have "1 \<le> int (length (snake state))"
    by (cases "snake state") simp_all
  from respawn_then_food_ok[OF assms(1-3) this assms(5), of rng] assms(6) show ?thesis
    by (auto simp: after_collision_def Let_def)
qed

lemma after_collision_has_room:
  assumes room: "has_room state" and over: "\<not> game_over state"
  shows "after_collision state P rng \<noteq> Inl BoardFullError"
    and "after_collision state P rng = Inr (s', rng') \<Longrightarrow> has_room s'"
proof -
  from room over have w: "1 \<le> width state" and h: "1 \<le> height state"
    and len: "1 \<le> int (length (snake state))"
    and fits: "int (length (snake state)) < width state * height state"
    by (auto simp: has_room_def Suc_le_eq)
  have respawned: "int (length snk) = int (length (snake state))"
    if "respawn_snake (width state) (height state) (int (length (snake state))) P rng =
          Inr (snk, rng1)" for snk rng1
    using respawn_snake_length[OF w h len that] fits by simp
  show "after_collision state P rng \<noteq> Inl BoardFullError"
  proof
    assume a: "after_collision state P rng = Inl BoardFullError"
    then have l: "\<not> lives state - 1 \<le> 0"
      by (auto simp: after_collision_def Let_def)
    show False
    proof (cases "respawn_snake (width state) (height state) (int (length (snake state))) P rng")
      case (Inl e)
      with a l respawn_snake_error[OF Inl] show False
        by (simp add: after_collision_def Let_def BoardFullError_def)
    next
      case (Inr r)
      obtain snk rng1 where r: "r = (snk, rng1)" by (cases r)
      from respawned[OF Inr[unfolded r]] fits w h
      have "spawn_food snk (width state) (height state) P rng1 \<noteq> Inl BoardFullError"
        by (intro spawn_food_not_board_full) simp_all
      with a l Inr r show False
        by (auto simp: after_collision_def Let_def split: sum.splits)
    qed
  qed
  assume a: "after_collision state P rng = Inr (s', rng')"
  show "has_room s'"
  proof (cases "lives state - 1 \<le> 0")
    case True
    with a room show ?thesis
      by (auto simp: after_collision_def Let_def has_room_def)
  next
    case False
    with a obtain snk rng1 fd
      where r: "respawn_snake (width state) (height state) (int (length (snake state))) P rng =
                  Inr (snk, rng1)"
        and s': "s' = \<lparr>width = width state, height = height state, snake = snk, food = fd,
                      direction = direction_from_snake snk, score = score state,
                      game_over = False, lives = lives state - 1,
                      max_lives = max_lives state\<rparr>"
      by (auto simp: after_collision_def Let_def split: sum.splits)
    from respawned[OF r] len fits w h show ?thesis
      unfolding s' has_room_def by auto
  qed
qed

subsection \<open>The branches of \<open>step_state\<close>\<close>

lemma tick_direction_not_reverse:
  assumes "direction state \<noteq> (0, 0)"
  shows "tick_direction state req \<noteq> (- fst (direction state), - snd (direction state))"
proof (cases req)
  case None
  with assms show ?thesis
    by (cases "direction state") (auto simp: tick_direction_def)
next
  case (Some q)
  with assms show ?thesis
    by (cases "direction state") (auto simp: tick_direction_def update_direction_def)
qed

lemma step_state_collision_eq:
  assumes "\<not> game_over state" and "snake state = c # rest"
    and "d = tick_direction state req" and "nh = next_head_of c d"
    and "outside_board state nh \<or> nh \<in> set (body_for_collision state nh)"
  shows "step_state state req P rng = after_collision (state\<lparr>direction := d\<rparr>) P rng"
  using assms by (cases state) (auto simp: step_state_def Let_def)

lemma step_state_move_eq:
  assumes "\<not> game_over state" and "snake state = c # rest"
    and "d = tick_direction state req" and "nh = next_head_of c d"
    and "\<not> outside_board state nh" and "nh \<notin> set (body_for_collision state nh)"
    and "nh \<noteq> food state"
  shows "step_state state req P rng =
           Inr (state\<lparr>snake := nh # butlast (snake state), direction := d\<rparr>, rng)"
  using assms by (cases state) (simp add: step_state_def Let_def)

lemma step_state_win_eq:
  assumes "\<not> game_over state" and "snake state = c # rest"
    and "d = tick_direction state req" and "nh = next_head_of c d"
    and "\<not> outside_board state nh" and "nh \<notin> set (body_for_collision state nh)"
    and "nh = food state" and "int (length (snake state)) + 1 = width state * height state"
  shows "step_state state req P rng =
           Inr (state\<lparr>snake := nh # snake state, direction := d, score := score state + 1,
                      game_over := True\<rparr>, rng)"
  using assms by (cases state) (simp add: step_state_def Let_def)

lemma step_state_grow_eq:
  assumes "\<not> game_over state" and "snake state = c # rest"
    and "d = tick_direction state req" and "nh = next_head_of c d"
    and "\<not> outside_board state nh" and "nh \<notin> set (body_for_collision state nh)"
    and "nh = food state" and "int (length (snake state)) + 1 \<noteq> width state * height state"
  shows "step_state state req P rng =
           (case spawn_food (nh # snake state) (width state) (height state) P rng of
              Inl e \<Rightarrow> Inl e
            | Inr (fd, rng') \<Rightarrow>
                Inr (state\<lparr>snake := nh # snake state, food := fd, direction := d,
                           score := score state + 1\<rparr>, rng'))"
  using assms by (cases state) (auto simp: step_state_def Let_def split: sum.splits)

subsection \<open>Every state of a game satisfies the invariants\<close>

lemma step_state_has_room:
  assumes room: "has_room state"
  shows "step_state state req P rng \<noteq> Inl BoardFullError"
    and "step_state state req P rng = Inr (s', rng') \<Longrightarrow> has_room s'"
proof -
  have "step_state state req P rng \<noteq> Inl BoardFullError \<and>
        (step_state state req P rng = Inr (s', rng') \<longrightarrow> has_room s')"
  proof (cases "game_over state")
    case True
    with room show ?thesis
      by (auto simp: step_state_def)
  next
    case False
    from room False have w: "1 \<le> width state" and h: "1 \<le> height state"
      and fits: "int (length (snake state)) < width state * height state"
      by (auto simp: has_room_def)
    from room obtain c rest where snk: "snake state = c # rest"
      by (cases "snake state") (auto simp: has_room_def)
    define d where "d = tick_direction state req"
    define nh where "nh = next_head_of c d"
    show ?thesis
    proof (cases "outside_board state nh \<or> nh \<in> set (body_for_collision state nh)")
      case True
      have "has_room (state\<lparr>direction := d\<rparr>)" and "\<not> game_over (state\<lparr>direction := d\<rparr>)"
        using room False by (simp_all add: has_room_def)
      from after_collision_has_room[OF this, of P rng]
        step_state_collision_eq[OF False snk d_def nh_def True, of P rng]
      show ?thesis by simp
    next
      case no_hit: False
      then have inside: "\<not> outside_board state nh"
        and free: "nh \<notin> set (body_for_collision state nh)"
        by simp_all
      note hyps = False snk d_def nh_def inside free
      show ?thesis
      proof (cases "nh = food state")
        case move: False
        have "has_room (state\<lparr>snake := nh # butlast (snake state), direction := d\<rparr>)"
          using w h fits False snk by (simp add: has_room_def)
        with step_state_move_eq[OF hyps move, of P rng] show ?thesis
          by auto
      next
        case grow: True
        show ?thesis
        proof (cases "int (length (snake state)) + 1 = width state * height state")
          case True
          have "has_room (state\<lparr>snake := nh # snake state, direction := d,
                  score := score state + 1, game_over := True\<rparr>)"
            using w h by (simp add: has_room_def)
          with step_state_win_eq[OF hyps grow True, of P rng] show ?thesis
            by auto
        next
          case more: False
          with fits have room': "int (length (nh # snake state)) < width state * height state"
            by simp
          with w h
          have "spawn_food (nh # snake state) (width state) (height state) P rng \<noteq>
                  Inl BoardFullError"
            by (intro spawn_food_not_board_full) simp_all
          moreover have "has_room (state\<lparr>snake := nh # snake state, food := fd, direction := d,
                    score := score state + 1\<rparr>)" for fd
            using w h room' False by (simp add: has_room_def)
          ultimately show ?thesis
            using step_state_grow_eq[OF hyps grow more, of P rng]
            by (auto split: sum.splits)
        qed
      qed
    qed
  qed
  then show "step_state state req P rng \<noteq> Inl BoardFullError"
    and "step_state state req P rng = Inr (s', rng') \<Longrightarrow> has_room s'"
    by blast+
qed

lemma step_state_well_formed:
  assumes P: "honest P" and wf: "well_formed state"
  shows "\<exists>s' rng'. step_state state req P rng = Inr (s', rng') \<and> well_formed s'"
proof (cases "game_over state")
  case True
  with wf show ?thesis
    by (simp add: step_state_def)
next
  case False
  from wf False have w: "1 \<le> width state" and h: "1 \<le> height state"
    and d: "distinct (snake state)"
    and fits: "int (length (snake state)) < width state * height state"
    and fd: "food state \<notin> set (snake state)"
    by (auto simp: well_formed_def has_room_def)
  from wf obtain c rest where snk: "snake state = c # rest"
    by (cases "snake state") (auto simp: well_formed_def has_room_def)
  define d' where "d' = tick_direction state req"
  define nh where "nh = next_head_of c d'"
  show ?thesis
  proof (cases "outside_board state nh \<or> nh \<in> set (body_for_collision state nh)")
    case True
    note eq = step_state_collision_eq[OF False snk d'_def nh_def True, of P rng]
    show ?thesis
    proof (cases "lives state - 1 \<le> 0")
      case True
      then have "after_collision (state\<lparr>direction := d'\<rparr>) P rng =
                   Inr (state\<lparr>direction := d', game_over := True, lives := 0\<rparr>, rng)"
        by (simp add: after_collision_fatal)
      moreover have "well_formed (state\<lparr>direction := d', game_over := True, lives := 0\<rparr>)"
        using w h d fd snk by (simp add: well_formed_def has_room_def)
      ultimately show ?thesis
        using eq by simp
    next
      case l: False
      let ?c = "state\<lparr>direction := d'\<rparr>"
      from after_collision_respawn_ok[of P ?c rng] P w h snk fits l
      obtain s' rng' where a: "after_collision ?c P rng = Inr (s', rng')"
        by auto
      from after_collision_respawn[OF P _ _ a] snk l
      have "well_formed s'"
        using w h by (auto simp: well_formed_def has_room_def)
      with a eq show ?thesis by simp
    qed
  next
    case no_hit: False
    then have inside: "\<not> outside_board state nh"
      and free: "nh \<notin> set (body_for_collision state nh)"
      by simp_all
    show ?thesis
    proof (cases "nh = food state")
      case move: False
      from free move have "nh \<notin> set (butlast (snake state))"
        by (simp add: body_for_collision_def)
      moreover from d have "distinct (butlast (snake state))"
        by (rule distinct_butlast)
      moreover from fd have "food state \<notin> set (butlast (snake state))"
        by (auto dest: in_set_butlastD)
      ultimately have "well_formed (state\<lparr>snake := nh # butlast (snake state), direction := d'\<rparr>)"
        using w h fits False move snk by (simp add: well_formed_def has_room_def)
      with step_state_move_eq[OF False snk d'_def nh_def inside free move, of P rng]
      show ?thesis by simp
    next
      case grow: True
      with free have fresh: "nh \<notin> set (snake state)"
        by (simp add: body_for_collision_def)
      show ?thesis
      proof (cases "int (length (snake state)) + 1 = width state * height state")
        case True
        have "well_formed (state\<lparr>snake := nh # snake state, direction := d',
                score := score state + 1, game_over := True\<rparr>)"
          using w h d fresh True by (simp add: well_formed_def has_room_def)
        with step_state_win_eq[OF False snk d'_def nh_def inside free grow True, of P rng]
        show ?thesis by simp
      next
        case more: False
        with fits have room: "int (length (nh # snake state)) < width state * height state"
          by simp
        from spawn_food_ok[OF P _ _ room, of rng] w h obtain fd' rng'
          where sp: "spawn_food (nh # snake state) (width state) (height state) P rng =
                       Inr (fd', rng')"
          by auto
        from spawn_food_Inr(2)[OF sp P] have "fd' \<notin> set (nh # snake state)"
          by simp
        then have "well_formed (state\<lparr>snake := nh # snake state, food := fd', direction := d',
                     score := score state + 1\<rparr>)"
          using w h d fresh room False by (simp add: well_formed_def has_room_def)
        with step_state_grow_eq[OF False snk d'_def nh_def inside free grow more, of P rng] sp
        show ?thesis by simp
      qed
    qed
  qed
qed

lemma initial_snake_eq:
  "initial_snake w h = [(w div 2, h div 2), (w div 2 - 1, h div 2), (w div 2 - 2, h div 2)]"
  by (simp add: initial_snake_def Let_def)

lemma initial_snake_shape:
  shows "length (initial_snake w h) = 3" and "distinct (initial_snake w h)"
  by (simp_all add: initial_snake_def Let_def)

lemma board_at_least_16:
  assumes "4 \<le> w" and "4 \<le> h"
  shows "(16::int) \<le> w * h"
proof -
  have "(4::int) * 4 \<le> w * h"
    using assms by (intro mult_mono) simp_all
  then show ?thesis by simp
qed

lemma create_initial_state_ok:
  assumes P: "honest P" and w: "4 \<le> w" and h: "4 \<le> h"
  shows "\<exists>fd rng'. create_initial_state w h P rng =
           Inr (\<lparr>width = w, height = h, snake = initial_snake w h, food = fd,
                 direction = RIGHT, score = 0, game_over = False, lives = 3,
                 max_lives = 3\<rparr>, rng') \<and>
           fd \<notin> set (initial_snake w h)"
proof -
  have "int (length (initial_snake w h)) < w * h"
    using board_at_least_16[OF w h] by (simp add: initial_snake_shape)
  from spawn_food_ok[OF P _ _ this, of rng] w h obtain fd rng'
    where sp: "spawn_food (initial_snake w h) w h P rng = Inr (fd, rng')"
    by auto
  have "\<not> (w < 4 \<or> h < 4)"
    using w h by simp
  with spawn_food_Inr(2)[OF sp P] sp show ?thesis
    by (simp add: create_initial_state_def Let_def)
qed

lemma create_initial_state_Inr:
  assumes "create_initial_state w h P rng = Inr (state, rng')"
  shows "4 \<le> w \<and> 4 \<le> h \<and>
         state = \<lparr>width = w, height = h, snake = initial_snake w h, food = food state,
                  direction = RIGHT, score = 0, game_over = False, lives = 3,
                  max_lives = 3\<rparr>"
  using assms
  by (auto simp: create_initial_state_def Let_def split: if_splits sum.splits)

lemma create_initial_state_has_room:
  assumes "create_initial_state w h P rng = Inr (state, rng')"
  shows "has_room state"
proof -
  from create_initial_state_Inr[OF assms] have w: "4 \<le> w" and h: "4 \<le> h"
    and state: "state = \<lparr>width = w, height = h, snake = initial_snake w h, food = food state,
                  direction = RIGHT, score = 0, game_over = False, lives = 3,
                  max_lives = 3\<rparr>"
    by blast+
  have "initial_snake w h \<noteq> []"
    using initial_snake_shape(1)[of w h] by auto
  with board_at_least_16[OF w h] w h initial_snake_shape(1)[of w h] show ?thesis
    by (subst state) (simp add: has_room_def)
qed

lemma create_initial_state_well_formed:
  assumes P: "honest P" and c: "create_initial_state w h P rng = Inr (state, rng')"
  shows "well_formed state"
proof -
  from c have w: "4 \<le> w" and h: "4 \<le> h"
    by (auto simp: create_initial_state_def split: if_splits)
  from create_initial_state_ok[OF P w h, of rng] c obtain fd
    where state: "state = \<lparr>width = w, height = h, snake = initial_snake w h, food = fd,
                   direction = RIGHT, score = 0, game_over = False, lives = 3,
                   max_lives = 3\<rparr>"
      and fd: "fd \<notin> set (initial_snake w h)"
    by auto
  have "initial_snake w h \<noteq> []"
    using initial_snake_shape(1)[of w h] by auto
  with fd board_at_least_16[OF w h] w h initial_snake_shape[of w h] show ?thesis
    unfolding state well_formed_def has_room_def by simp
qed

lemma steps_has_room:
  "has_room state \<Longrightarrow> steps P ticks state = Inr s' \<Longrightarrow> has_room s'"
proof (induction ticks arbitrary: state)
  case Nil
  then show ?case by simp
next
  case (Cons tick ticks)
  from Cons.prems(2) obtain s1 rng1
    where s1: "step_state state (fst tick) P (snd tick) = Inr (s1, rng1)"
      and rest: "steps P ticks s1 = Inr s'"
    by (auto split: sum.splits)
  from step_state_has_room(2)[OF Cons.prems(1) s1] rest show ?case
    by (rule Cons.IH)
qed

lemma steps_well_formed:
  assumes P: "honest P"
  shows "well_formed state \<Longrightarrow> steps P ticks state = Inr s' \<Longrightarrow> well_formed s'"
proof (induction ticks arbitrary: state)
  case Nil
  then show ?case by simp
next
  case (Cons tick ticks)
  from step_state_well_formed[OF P Cons.prems(1), of "fst tick" "snd tick"]
  obtain s1 rng1 where "step_state state (fst tick) P (snd tick) = Inr (s1, rng1)"
    and "well_formed s1"
    by blast
  with Cons.prems(2) Cons.IH[of s1] show ?case
    by simp
qed

lemma play_has_room:
  assumes "play w h P rng ticks = Inr state"
  shows "has_room state"
proof -
  from assms obtain s0 rng1 where c: "create_initial_state w h P rng = Inr (s0, rng1)"
    and s: "steps P ticks s0 = Inr state"
    by (auto simp: play_def split: sum.splits)
  from create_initial_state_has_room[OF c] s show ?thesis
    by (rule steps_has_room)
qed

lemma play_well_formed:
  assumes "honest P" and "play w h P rng ticks = Inr state"
  shows "well_formed state"
  using assms
  by (auto simp: play_def split: sum.splits
      intro: steps_well_formed create_initial_state_well_formed)

section \<open>The claims\<close>

text \<open>
  C1, as amended. For every state reachable from \<open>create_initial_state\<close> by any sequence
  of \<open>step_state\<close> calls (any requested directions, any random source whose \<open>choice\<close>
  returns an element of the sequence it is given), the snake has no duplicate points, and
  the food is not a member of the snake unless the state is the board-filled win
  (\<open>game_over\<close> is true and the snake is \<open>width * height\<close> long): the winning step leaves the
  food where it was, under the new head.
\<close>

theorem reachable_snake_distinct_food_off_snake_until_filled:
  assumes "honest P" and "play w h P rng0 ticks = Inr state"
  shows "distinct (snake state) \<and>
         (food state \<notin> set (snake state) \<or>
          (game_over state \<and> int (length (snake state)) = width state * height state))"
  using play_well_formed[OF assms] by (auto simp: well_formed_def)

text \<open>
  The claim as first stated fails: on the 4 by 4 board the thirteen ticks below are a game
  with an honest source that ends in the board-filled win, and there the food is the
  snake's head.
\<close>

theorem reachable_food_on_snake_counterexample:
  "honest wish_choice \<and>
   play 4 4 wish_choice (2, 1) (filling_ticks @ [(None, (0, 0))]) = Inr filled_board_state \<and>
   food filled_board_state \<in> set (snake filled_board_state)"
proof -
  have "play 4 4 wish_choice (2, 1) (filling_ticks @ [(None, (0, 0))]) = Inr filled_board_state"
    by code_simp
  moreover have "food filled_board_state \<in> set (snake filled_board_state)"
    by (simp add: filled_board_state_def)
  ultimately show ?thesis
    using honest_wish_choice by blast
qed

theorem reachable_snake_distinct_food_off_snake_until_filled_witness:
  "honest wish_choice \<and>
   play 4 4 wish_choice (2, 1) filling_ticks = Inr last_food_state \<and>
   distinct (snake last_food_state) \<and> food last_food_state \<notin> set (snake last_food_state)"
proof -
  have run: "play 4 4 wish_choice (2, 1) filling_ticks = Inr last_food_state"
    by code_simp
  have g: "\<not> game_over last_food_state"
    by (simp add: last_food_state_def)
  from reachable_snake_distinct_food_off_snake_until_filled[OF honest_wish_choice run] g
  have "distinct (snake last_food_state) \<and> food last_food_state \<notin> set (snake last_food_state)"
    by blast
  with honest_wish_choice run show ?thesis
    by blast
qed

text \<open>
  C2. On a collision (with the wall or with the snake itself) \<open>step_state\<close> is to take one
  life and, when a life is left, to return a state with a respawned snake of the same
  length. The call of \<open>test_wall_collision_loses_one_life\<close> shows that the code does not:
  its source \<open>FixedChoice((0, 0))\<close> answers every \<open>choice\<close> with the point \<open>(0, 0)\<close>, as the
  protocol \<open>choice(seq: List[Point]) -> Point\<close> declares, \<open>_respawn_snake\<close> takes that point for
  the list of directions (\<open>for dx, dy in picker.choice([directions])\<close>), and unpacking its
  first coordinate raises \<open>TypeError\<close>, where the test expects \<open>lives = 2\<close> and a snake of
  five segments. Such a source is none of the typed sources of this theory.

  What the code does with a typed source is the following. If no life is left
  (\<open>lives - 1 \<le> 0\<close>) the step returns the state of just before the collision, with the
  direction of this tick, \<open>game_over = True\<close> and \<open>lives = 0\<close>: snake, food and score are
  unchanged, nothing is respawned and the source is not called. Otherwise every state it
  returns is the colliding state with one life less, the snake that \<open>_respawn_snake\<close>
  returned for the old length, the food that \<open>spawn_food\<close> returned for that snake, and the
  direction of that snake; the new snake is as long as the old one (for an honest source,
  and for any source when the snake was not longer than the board is large); and with an
  honest source and a snake shorter than the board is large the call does return.
\<close>

theorem step_state_collision_costs_a_life:
  assumes "\<not> game_over state" and "snake state = hd_cell # rest"
    and "d = tick_direction state requested_direction"
    and "next_head = next_head_of hd_cell d"
    and "outside_board state next_head \<or> next_head \<in> set (body_for_collision state next_head)"
  shows "(lives state - 1 \<le> 0 \<longrightarrow>
            step_state state requested_direction P rng =
              Inr (state\<lparr>direction := d, game_over := True, lives := 0\<rparr>, rng)) \<and>
         (0 < lives state - 1 \<longrightarrow>
            (\<forall>s' rng'. step_state state requested_direction P rng = Inr (s', rng') \<longrightarrow>
               (\<exists>snk rng1 fd.
                  respawn_snake (width state) (height state) (int (length (snake state))) P rng =
                    Inr (snk, rng1) \<and>
                  spawn_food snk (width state) (height state) P rng1 = Inr (fd, rng') \<and>
                  s' = state\<lparr>snake := snk, food := fd, direction := direction_from_snake snk,
                             game_over := False, lives := lives state - 1\<rparr>) \<and>
               (honest P \<or> int (length (snake state)) \<le> width state * height state \<longrightarrow>
                  length (snake s') = length (snake state))) \<and>
            (honest P \<and> 1 \<le> width state \<and> 1 \<le> height state \<and>
             int (length (snake state)) < width state * height state \<longrightarrow>
               (\<exists>s' rng'. step_state state requested_direction P rng = Inr (s', rng'))))"
proof -
  let ?c = "state\<lparr>direction := d\<rparr>"
  note eq = step_state_collision_eq[OF assms, of P rng]
  have fatal: "step_state state requested_direction P rng =
                 Inr (state\<lparr>direction := d, game_over := True, lives := 0\<rparr>, rng)"
    if "lives state - 1 \<le> 0"
    using that eq after_collision_fatal[of ?c P rng] by simp
  have respawned:
    "(\<exists>snk rng1 fd.
        respawn_snake (width state) (height state) (int (length (snake state))) P rng =
          Inr (snk, rng1) \<and>
        spawn_food snk (width state) (height state) P rng1 = Inr (fd, rng') \<and>
        s' = state\<lparr>snake := snk, food := fd, direction := direction_from_snake snk,
                   game_over := False, lives := lives state - 1\<rparr>) \<and>
     (honest P \<or> int (length (snake state)) \<le> width state * height state \<longrightarrow>
        length (snake s') = length (snake state))"
    if l: "0 < lives state - 1"
      and s: "step_state state requested_direction P rng = Inr (s', rng')" for s' rng'
  proof -
    from s eq have a: "after_collision ?c P rng = Inr (s', rng')"
      by simp
    from a l obtain snk rng1 fd
      where r: "respawn_snake (width state) (height state) (int (length (snake state))) P rng =
                  Inr (snk, rng1)"
        and f: "spawn_food snk (width state) (height state) P rng1 = Inr (fd, rng')"
        and s': "s' = \<lparr>width = width state, height = height state, snake = snk, food = fd,
                      direction = direction_from_snake snk, score = score state,
                      game_over = False, lives = lives state - 1,
                      max_lives = max_lives state\<rparr>"
      by (auto simp: after_collision_def Let_def split: sum.splits)
    have shape: "s' = state\<lparr>snake := snk, food := fd, direction := direction_from_snake snk,
                            game_over := False, lives := lives state - 1\<rparr>"
      unfolding s' by (cases state) simp
    have len: "1 \<le> int (length (snake state))"
      using assms(2) by simp
    have "length (snake s') = length (snake state)" if "honest P"
      using respawn_then_food[OF that len r f] s' by simp
    moreover have "length (snake s') = length (snake state)"
      if fits: "int (length (snake state)) \<le> width state * height state"
    proof -
      from spawn_food_Inr(1)[OF f] have w: "1 \<le> width state" and h: "1 \<le> height state"
        by (auto simp: subset_iff)
      from respawn_snake_length[OF w h len r] fits s' show ?thesis
        by simp
    qed
    ultimately show ?thesis
      using r f shape by blast
  qed
  have returns: "\<exists>s' rng'. step_state state requested_direction P rng = Inr (s', rng')"
    if "0 < lives state - 1" and "honest P" and "1 \<le> width state" and "1 \<le> height state"
      and "int (length (snake state)) < width state * height state"
    using after_collision_respawn_ok[of P ?c rng] that assms(2) eq by simp
  from fatal respawned returns show ?thesis
    by blast
qed

theorem step_state_collision_costs_a_life_witness:
  "\<not> game_over wall_collision_state \<and>
   snake wall_collision_state = (4, 2) # tl (snake wall_collision_state) \<and>
   RIGHT = tick_direction wall_collision_state None \<and> (5, 2) = next_head_of (4, 2) RIGHT \<and>
   outside_board wall_collision_state (5, 2) \<and> honest first_choice \<and>
   0 < lives wall_collision_state - 1 \<and>
   respawn_snake 5 5 5 first_choice () = Inr ([(0, 0), (1, 0), (2, 0), (3, 0), (4, 0)], ()) \<and>
   step_state wall_collision_state None first_choice () =
     Inr (\<lparr>width = 5, height = 5, snake = [(0, 0), (1, 0), (2, 0), (3, 0), (4, 0)],
           food = (0, 1), direction = LEFT, score = 0, game_over = False, lives = 2,
           max_lives = 3\<rparr>, ()) \<and>
   (\<exists>s' rng'. step_state wall_collision_state None first_choice () = Inr (s', rng') \<and>
      length (snake s') = length (snake wall_collision_state)) \<and>
   lives (wall_collision_state\<lparr>lives := 1\<rparr>) - 1 \<le> 0 \<and>
   step_state (wall_collision_state\<lparr>lives := 1\<rparr>) None first_choice () =
     Inr (wall_collision_state\<lparr>lives := 1, direction := RIGHT, game_over := True,
            lives := 0\<rparr>, ())"
proof -
  have h: "\<not> game_over wall_collision_state"
    "snake wall_collision_state = (4, 2) # tl (snake wall_collision_state)"
    "RIGHT = tick_direction wall_collision_state None" "(5, 2) = next_head_of (4, 2) RIGHT"
    by (simp_all add: wall_collision_state_def tick_direction_def next_head_of_def RIGHT_def)
  have o: "outside_board wall_collision_state (5, 2)"
    by (simp add: wall_collision_state_def outside_board_def)
  then have c: "outside_board wall_collision_state (5, 2) \<or>
                (5, 2) \<in> set (body_for_collision wall_collision_state (5, 2))"
    by simp
  have l: "0 < lives wall_collision_state - 1" "1 \<le> width wall_collision_state"
    "1 \<le> height wall_collision_state"
    "int (length (snake wall_collision_state)) <
       width wall_collision_state * height wall_collision_state"
    by (simp_all add: wall_collision_state_def)
  have respawn: "respawn_snake 5 5 5 first_choice () =
                   Inr ([(0, 0), (1, 0), (2, 0), (3, 0), (4, 0)], ())"
    by code_simp
  have run: "step_state wall_collision_state None first_choice () =
     Inr (\<lparr>width = 5, height = 5, snake = [(0, 0), (1, 0), (2, 0), (3, 0), (4, 0)],
           food = (0, 1), direction = LEFT, score = 0, game_over = False, lives = 2,
           max_lives = 3\<rparr>, ())"
    by code_simp
  from step_state_collision_costs_a_life[OF h c, of first_choice "()"] l honest_first_choice
  have respawned: "\<exists>s' rng'. step_state wall_collision_state None first_choice () =
                     Inr (s', rng') \<and>
                   length (snake s') = length (snake wall_collision_state)"
    by blast
  let ?last = "wall_collision_state\<lparr>lives := 1\<rparr>"
  have h': "\<not> game_over ?last" "snake ?last = (4, 2) # tl (snake wall_collision_state)"
    "RIGHT = tick_direction ?last None"
    by (simp_all add: wall_collision_state_def tick_direction_def)
  have c': "outside_board ?last (5, 2) \<or> (5, 2) \<in> set (body_for_collision ?last (5, 2))"
    by (simp add: wall_collision_state_def outside_board_def)
  have l': "lives ?last - 1 \<le> 0"
    by simp
  from step_state_collision_costs_a_life[OF h' h(4) c', of first_choice "()"] l'
  have fatal: "step_state ?last None first_choice () =
                 Inr (?last\<lparr>direction := RIGHT, game_over := True, lives := 0\<rparr>, ())"
    by blast
  from h o l(1) honest_first_choice respawn run respawned l' fatal show ?thesis
    by blast
qed

text \<open>
  C3. If \<open>step_state\<close> advances the head onto the food (the cell is on the board and not in
  the snake) and the grown snake is \<open>width * height\<close> long, it returns the input state with
  the new head prepended, the direction of this tick, the score incremented by 1 and
  \<open>game_over = True\<close>: lives and food are unchanged, no error is raised, and the random
  source is handed back in the state it came in, so no food was spawned.
\<close>

theorem step_state_board_filled_win:
  assumes "\<not> game_over state" and "snake state = hd_cell # rest"
    and "d = tick_direction state requested_direction"
    and "next_head = next_head_of hd_cell d"
    and "\<not> outside_board state next_head"
    and "next_head = food state" and "next_head \<notin> set (snake state)"
    and "int (length (next_head # snake state)) = width state * height state"
  shows "step_state state requested_direction P rng =
           Inr (state\<lparr>snake := next_head # snake state, direction := d,
                      score := score state + 1, game_over := True\<rparr>, rng)"
proof -
  from assms(6,7) have "next_head \<notin> set (body_for_collision state next_head)"
    by (simp add: body_for_collision_def)
  moreover from assms(8) have "int (length (snake state)) + 1 = width state * height state"
    by simp
  ultimately show ?thesis
    using assms(1-6) by (intro step_state_win_eq)
qed

theorem step_state_board_filled_win_witness:
  "\<not> game_over last_food_state \<and> snake last_food_state = (1, 3) # tl (snake last_food_state) \<and>
   LEFT = tick_direction last_food_state None \<and> (0, 3) = next_head_of (1, 3) LEFT \<and>
   \<not> outside_board last_food_state (0, 3) \<and> (0, 3) = food last_food_state \<and>
   (0, 3) \<notin> set (snake last_food_state) \<and>
   int (length ((0, 3) # snake last_food_state)) = width last_food_state * height last_food_state \<and>
   step_state last_food_state None wish_choice (2, 2) =
     Inr (last_food_state\<lparr>snake := (0, 3) # snake last_food_state, direction := LEFT,
            score := score last_food_state + 1, game_over := True\<rparr>, (2, 2))"
proof -
  have h: "\<not> game_over last_food_state"
    "snake last_food_state = (1, 3) # tl (snake last_food_state)"
    "LEFT = tick_direction last_food_state None" "(0, 3) = next_head_of (1, 3) LEFT"
    "\<not> outside_board last_food_state (0, 3)" "(0, 3) = food last_food_state"
    "(0, 3) \<notin> set (snake last_food_state)"
    "int (length ((0, 3) # snake last_food_state)) =
       width last_food_state * height last_food_state"
    by (simp_all add: last_food_state_def tick_direction_def next_head_of_def LEFT_def
        outside_board_def)
  from h step_state_board_filled_win[OF h, of wish_choice "(2, 2)"] show ?thesis
    by blast
qed

text \<open>
  C4. For every state with \<open>game_over = True\<close>, \<open>step_state\<close> returns the state it was
  given, for every requested direction (none included) and every random source, which it
  does not touch.
\<close>

theorem step_state_game_over_unchanged:
  "game_over state \<Longrightarrow> step_state state requested_direction P rng = Inr (state, rng)"
  by (simp add: step_state_def)

theorem step_state_game_over_unchanged_witness:
  "game_over (wall_collision_state\<lparr>game_over := True, lives := 0\<rparr>) \<and>
   step_state (wall_collision_state\<lparr>game_over := True, lives := 0\<rparr>) (Some LEFT)
     first_choice () = Inr (wall_collision_state\<lparr>game_over := True, lives := 0\<rparr>, ())"
proof -
  have g: "game_over (wall_collision_state\<lparr>game_over := True, lives := 0\<rparr>)"
    by simp
  from step_state_game_over_unchanged[OF g] g show ?thesis
    by simp
qed

text \<open>
  C5. When \<open>game_over\<close> is false and the next head is on the board, \<open>step_state\<close> compares
  the next head with the whole snake if it equals the food, and with the snake without its
  last cell if not. If the next head is in that body the step is \<open>_after_collision\<close> on the
  input state with the direction of this tick. If it is not, the step advances: without
  growth it returns the state with the head prepended and the last cell dropped; with
  growth it prepends the head and keeps the tail, ending the game when the board is filled
  and spawning new food otherwise.
\<close>

theorem step_state_self_collision_check:
  assumes "\<not> game_over state" and "snake state = hd_cell # rest"
    and "d = tick_direction state requested_direction"
    and "next_head = next_head_of hd_cell d" and "\<not> outside_board state next_head"
    and "body = (if next_head = food state then snake state else butlast (snake state))"
  shows "(next_head \<in> set body \<longrightarrow>
            step_state state requested_direction P rng =
              after_collision (state\<lparr>direction := d\<rparr>) P rng) \<and>
         (next_head \<notin> set body \<and> next_head \<noteq> food state \<longrightarrow>
            step_state state requested_direction P rng =
              Inr (state\<lparr>snake := next_head # butlast (snake state), direction := d\<rparr>, rng)) \<and>
         (next_head \<notin> set body \<and> next_head = food state \<longrightarrow>
            step_state state requested_direction P rng =
              (if int (length (next_head # snake state)) = width state * height state then
                 Inr (state\<lparr>snake := next_head # snake state, direction := d,
                            score := score state + 1, game_over := True\<rparr>, rng)
               else
                 (case spawn_food (next_head # snake state) (width state) (height state) P rng of
                    Inl e \<Rightarrow> Inl e
                  | Inr (next_food, rng') \<Rightarrow>
                      Inr (state\<lparr>snake := next_head # snake state, food := next_food,
                                 direction := d, score := score state + 1\<rparr>, rng'))))"
proof -
  have body: "body = body_for_collision state next_head"
    using assms(6) by (simp add: body_for_collision_def)
  have hit: "step_state state requested_direction P rng =
               after_collision (state\<lparr>direction := d\<rparr>) P rng"
    if "next_head \<in> set body"
    using step_state_collision_eq[OF assms(1-4), of P rng] that body by simp
  have move: "step_state state requested_direction P rng =
                Inr (state\<lparr>snake := next_head # butlast (snake state), direction := d\<rparr>, rng)"
    if "next_head \<notin> set body" and "next_head \<noteq> food state"
    using step_state_move_eq[OF assms(1-5), of P rng] that body by simp
  have win: "step_state state requested_direction P rng =
               Inr (state\<lparr>snake := next_head # snake state, direction := d,
                          score := score state + 1, game_over := True\<rparr>, rng)"
    if "next_head \<notin> set body" and "next_head = food state"
      and "int (length (next_head # snake state)) = width state * height state"
    using step_state_win_eq[OF assms(1-5), of P rng] that body by simp
  have grow: "step_state state requested_direction P rng =
                (case spawn_food (next_head # snake state) (width state) (height state) P rng of
                   Inl e \<Rightarrow> Inl e
                 | Inr (next_food, rng') \<Rightarrow>
                     Inr (state\<lparr>snake := next_head # snake state, food := next_food,
                                direction := d, score := score state + 1\<rparr>, rng'))"
    if "next_head \<notin> set body" and "next_head = food state"
      and "int (length (next_head # snake state)) \<noteq> width state * height state"
    using step_state_grow_eq[OF assms(1-5), of P rng] that body by simp
  show ?thesis
  proof (intro conjI impI)
    assume "next_head \<in> set body"
    then show "step_state state requested_direction P rng =
                 after_collision (state\<lparr>direction := d\<rparr>) P rng"
      by (rule hit)
  next
    assume "next_head \<notin> set body \<and> next_head \<noteq> food state"
    then show "step_state state requested_direction P rng =
                 Inr (state\<lparr>snake := next_head # butlast (snake state), direction := d\<rparr>, rng)"
      using move by blast
  next
    assume "next_head \<notin> set body \<and> next_head = food state"
    then have a: "next_head \<notin> set body" "next_head = food state"
      by blast+
    show "step_state state requested_direction P rng =
            (if int (length (next_head # snake state)) = width state * height state then
               Inr (state\<lparr>snake := next_head # snake state, direction := d,
                          score := score state + 1, game_over := True\<rparr>, rng)
             else
               (case spawn_food (next_head # snake state) (width state) (height state) P rng of
                  Inl e \<Rightarrow> Inl e
                | Inr (next_food, rng') \<Rightarrow>
                    Inr (state\<lparr>snake := next_head # snake state, food := next_food,
                               direction := d, score := score state + 1\<rparr>, rng')))"
    proof (cases "int (length (next_head # snake state)) = width state * height state")
      case True
      with win[OF a] show ?thesis by simp
    next
      case False
      with grow[OF a] show ?thesis by simp
    qed
  qed
qed

theorem step_state_self_collision_check_witness:
  "\<not> game_over self_collision_state \<and>
   snake self_collision_state = (3, 3) # tl (snake self_collision_state) \<and>
   DOWN = tick_direction self_collision_state None \<and>
   RIGHT = tick_direction self_collision_state (Some RIGHT) \<and>
   (3, 4) = next_head_of (3, 3) DOWN \<and> (4, 3) = next_head_of (3, 3) RIGHT \<and>
   \<not> outside_board self_collision_state (3, 4) \<and>
   \<not> outside_board self_collision_state (4, 3) \<and>
   (3, 4) \<noteq> food self_collision_state \<and> (4, 3) \<noteq> food self_collision_state \<and>
   butlast (snake self_collision_state) = [(3, 3), (3, 4), (4, 4)] \<and>
   step_state self_collision_state None first_choice () =
     after_collision (self_collision_state\<lparr>direction := DOWN\<rparr>) first_choice () \<and>
   step_state self_collision_state (Some RIGHT) first_choice () =
     Inr (self_collision_state\<lparr>snake := (4, 3) # butlast (snake self_collision_state),
            direction := RIGHT\<rparr>, ())"
proof -
  have h: "\<not> game_over self_collision_state"
    "snake self_collision_state = (3, 3) # tl (snake self_collision_state)"
    by (simp_all add: self_collision_state_def)
  have down: "DOWN = tick_direction self_collision_state None"
    "(3, 4) = next_head_of (3, 3) DOWN" "\<not> outside_board self_collision_state (3, 4)"
    by (simp_all add: self_collision_state_def tick_direction_def next_head_of_def DOWN_def
        outside_board_def)
  have right: "RIGHT = tick_direction self_collision_state (Some RIGHT)"
    "(4, 3) = next_head_of (3, 3) RIGHT" "\<not> outside_board self_collision_state (4, 3)"
    by (simp_all add: self_collision_state_def tick_direction_def update_direction_def
        next_head_of_def DOWN_def RIGHT_def outside_board_def)
  have f: "(3, 4) \<noteq> food self_collision_state" "(4, 3) \<noteq> food self_collision_state"
    by (simp_all add: self_collision_state_def)
  have b: "butlast (snake self_collision_state) = [(3, 3), (3, 4), (4, 4)]"
    by (simp add: self_collision_state_def)
  have b1: "butlast (snake self_collision_state) =
              (if (3, 4) = food self_collision_state then snake self_collision_state
               else butlast (snake self_collision_state))"
    and b2: "butlast (snake self_collision_state) =
              (if (4, 3) = food self_collision_state then snake self_collision_state
               else butlast (snake self_collision_state))"
    using f by simp_all
  have in1: "(3, 4) \<in> set (butlast (snake self_collision_state))"
    and out2: "(4, 3) \<notin> set (butlast (snake self_collision_state))"
    unfolding b by simp_all
  from step_state_self_collision_check[OF h down b1, of first_choice "()"] in1
  have r1: "step_state self_collision_state None first_choice () =
              after_collision (self_collision_state\<lparr>direction := DOWN\<rparr>) first_choice ()"
    by blast
  from step_state_self_collision_check[OF h right b2, of first_choice "()"] out2 f(2)
  have r2: "step_state self_collision_state (Some RIGHT) first_choice () =
              Inr (self_collision_state\<lparr>snake := (4, 3) # butlast (snake self_collision_state),
                     direction := RIGHT\<rparr>, ())"
    by blast
  from h down right f b r1 r2 show ?thesis
    by blast
qed

text \<open>
  C6. In every state reachable from \<open>create_initial_state\<close> by \<open>step_state\<close> calls, with any
  random source, a snake that is still playing is shorter than \<open>width * height\<close>, and so is
  the snake of every state a further step returns without ending the game: every call of
  \<open>spawn_food\<close> inside \<open>step_state\<close> finds a free cell, and \<open>step_state\<close> never raises
  \<open>BoardFullError\<close>. With an honest source it raises nothing at all.
\<close>

theorem step_state_never_board_full:
  assumes "play w h P rng0 ticks = Inr state"
  shows "(\<not> game_over state \<longrightarrow> int (length (snake state)) < width state * height state) \<and>
         step_state state requested_direction P rng \<noteq> Inl BoardFullError \<and>
         (\<forall>s' rng'. step_state state requested_direction P rng = Inr (s', rng') \<longrightarrow>
            \<not> game_over s' \<longrightarrow> int (length (snake s')) < width s' * height s') \<and>
         (honest P \<longrightarrow> (\<exists>s' rng'. step_state state requested_direction P rng = Inr (s', rng')))"
proof -
  from assms have room: "has_room state"
    by (rule play_has_room)
  then have "\<not> game_over state \<longrightarrow> int (length (snake state)) < width state * height state"
    by (auto simp: has_room_def)
  moreover have "\<forall>s' rng'. step_state state requested_direction P rng = Inr (s', rng') \<longrightarrow>
                   \<not> game_over s' \<longrightarrow> int (length (snake s')) < width s' * height s'"
  proof (intro allI impI)
    fix s' rng'
    assume "step_state state requested_direction P rng = Inr (s', rng')"
    from step_state_has_room(2)[OF room this]
    show "\<not> game_over s' \<Longrightarrow> int (length (snake s')) < width s' * height s'"
      by (simp add: has_room_def)
  qed
  moreover have "honest P \<longrightarrow>
                   (\<exists>s' rng'. step_state state requested_direction P rng = Inr (s', rng'))"
  proof
    assume "honest P"
    from step_state_well_formed[OF this play_well_formed[OF this assms]]
    show "\<exists>s' rng'. step_state state requested_direction P rng = Inr (s', rng')"
      by blast
  qed
  moreover note step_state_has_room(1)[OF room, of requested_direction P rng]
  ultimately show ?thesis
    by (intro conjI)
qed

theorem step_state_never_board_full_witness:
  "play 4 4 wish_choice (2, 1) filling_ticks = Inr last_food_state \<and>
   \<not> game_over last_food_state \<and> honest wish_choice \<and>
   int (length (snake last_food_state)) < width last_food_state * height last_food_state \<and>
   step_state last_food_state (Some DOWN) wish_choice (0, 0) \<noteq> Inl BoardFullError \<and>
   (\<exists>s' rng'. step_state last_food_state (Some DOWN) wish_choice (0, 0) = Inr (s', rng') \<and>
      \<not> game_over s' \<and> int (length (snake s')) < width s' * height s')"
proof -
  have run: "play 4 4 wish_choice (2, 1) filling_ticks = Inr last_food_state"
    by code_simp
  have g: "\<not> game_over last_food_state"
    by (simp add: last_food_state_def)
  have s: "step_state last_food_state (Some DOWN) wish_choice (0, 0) =
             Inr (\<lparr>width = 4, height = 4,
                   snake = [(0, 0), (1, 0), (2, 0), (3, 0), (3, 1), (2, 1), (1, 1), (0, 1),
                            (0, 2), (1, 2), (2, 2), (3, 2), (3, 3), (2, 3), (1, 3)],
                   food = (0, 3), direction = LEFT, score = 12, game_over = False,
                   lives = 2, max_lives = 3\<rparr>, (0, 0))"
    by code_simp
  from step_state_never_board_full[OF run, of "Some DOWN" "(0, 0)"] g s
  have "int (length (snake last_food_state)) < width last_food_state * height last_food_state \<and>
    step_state last_food_state (Some DOWN) wish_choice (0, 0) \<noteq> Inl BoardFullError \<and>
    (\<exists>s' rng'. step_state last_food_state (Some DOWN) wish_choice (0, 0) = Inr (s', rng') \<and>
      \<not> game_over s' \<and> int (length (snake s')) < width s' * height s')"
    by auto
  with honest_wish_choice run g show ?thesis
    by blast
qed

text \<open>
  C7, as amended. Take a \<open>step_state\<close> call on a state that is not game over and whose
  direction is not \<open>(0, 0)\<close>. When the call does not respawn the snake (the returned state
  is game over, or has the lives of the input), the returned direction is not the exact
  reverse of the input state's direction. After a collision that leaves a life, the
  returned direction is that of the respawned snake, its head minus its second segment
  (\<open>RIGHT\<close> for a snake of one segment), whatever the direction was before.
\<close>

theorem step_state_direction_not_reversed_without_respawn:
  assumes "\<not> game_over state" and "direction state \<noteq> (0, 0)"
    and "step_state state requested_direction P rng = Inr (s', rng')"
  shows "(game_over s' \<or> lives s' = lives state \<longrightarrow>
            direction s' \<noteq> (- fst (direction state), - snd (direction state))) \<and>
         (\<not> game_over s' \<and> lives s' \<noteq> lives state \<longrightarrow>
            direction s' = direction_from_snake (snake s'))"
proof -
  from assms(1,3) obtain c rest where snk: "snake state = c # rest"
    by (cases "snake state") (auto simp: step_state_def)
  define d where "d = tick_direction state requested_direction"
  define nh where "nh = next_head_of c d"
  have d: "d \<noteq> (- fst (direction state), - snd (direction state))"
    unfolding d_def using assms(2) by (rule tick_direction_not_reverse)
  show ?thesis
  proof (cases "outside_board state nh \<or> nh \<in> set (body_for_collision state nh)")
    case True
    from step_state_collision_eq[OF assms(1) snk d_def nh_def True, of P rng] assms(3)
    have "after_collision (state\<lparr>direction := d\<rparr>) P rng = Inr (s', rng')"
      by simp
    from after_collision_Inr[OF this] d show ?thesis
      by auto
  next
    case False
    then have inside: "\<not> outside_board state nh"
      and free: "nh \<notin> set (body_for_collision state nh)"
      by simp_all
    note h = assms(1) snk d_def nh_def inside free
    show ?thesis
    proof (cases "nh = food state")
      case move: False
      from step_state_move_eq[OF h move, of P rng] assms(3) d show ?thesis
        by auto
    next
      case grow: True
      show ?thesis
      proof (cases "int (length (snake state)) + 1 = width state * height state")
        case True
        from step_state_win_eq[OF h grow True, of P rng] assms(3) d show ?thesis
          by auto
      next
        case False
        from step_state_grow_eq[OF h grow False, of P rng] assms(3) d show ?thesis
          by (auto split: sum.splits)
      qed
    qed
  qed
qed

text \<open>
  The claim as first stated fails on the path through collision handling: the state of
  \<open>test_wall_collision_loses_one_life\<close> moves \<open>RIGHT\<close> into the wall, and the respawned snake
  faces \<open>LEFT\<close>.
\<close>

theorem step_state_direction_reversed_counterexample:
  "\<not> game_over wall_collision_state \<and> honest first_choice \<and>
   direction wall_collision_state = RIGHT \<and>
   step_state wall_collision_state None first_choice () =
     Inr (\<lparr>width = 5, height = 5, snake = [(0, 0), (1, 0), (2, 0), (3, 0), (4, 0)],
           food = (0, 1), direction = LEFT, score = 0, game_over = False, lives = 2,
           max_lives = 3\<rparr>, ()) \<and>
   LEFT = (- fst RIGHT, - snd RIGHT)"
proof -
  have "step_state wall_collision_state None first_choice () =
     Inr (\<lparr>width = 5, height = 5, snake = [(0, 0), (1, 0), (2, 0), (3, 0), (4, 0)],
           food = (0, 1), direction = LEFT, score = 0, game_over = False, lives = 2,
           max_lives = 3\<rparr>, ())"
    by code_simp
  moreover have "\<not> game_over wall_collision_state" "direction wall_collision_state = RIGHT"
    by (simp_all add: wall_collision_state_def)
  moreover have "LEFT = (- fst RIGHT, - snd RIGHT)"
    by (simp add: LEFT_def RIGHT_def)
  ultimately show ?thesis
    using honest_first_choice by blast
qed

theorem step_state_direction_not_reversed_without_respawn_witness:
  "\<not> game_over wall_collision_state \<and> direction wall_collision_state \<noteq> (0, 0) \<and>
   step_state wall_collision_state (Some UP) first_choice () =
     Inr (\<lparr>width = 5, height = 5, snake = [(4, 1), (4, 2), (3, 2), (2, 2), (1, 2)],
           food = (0, 0), direction = UP, score = 0, game_over = False, lives = 3,
           max_lives = 3\<rparr>, ()) \<and>
   UP \<noteq> (- fst (direction wall_collision_state), - snd (direction wall_collision_state))"
proof -
  have h: "\<not> game_over wall_collision_state" "direction wall_collision_state \<noteq> (0, 0)"
    by (simp_all add: wall_collision_state_def RIGHT_def)
  have run: "step_state wall_collision_state (Some UP) first_choice () =
     Inr (\<lparr>width = 5, height = 5, snake = [(4, 1), (4, 2), (3, 2), (2, 2), (1, 2)],
           food = (0, 0), direction = UP, score = 0, game_over = False, lives = 3,
           max_lives = 3\<rparr>, ())"
    by code_simp
  from step_state_direction_not_reversed_without_respawn[OF h run]
  have "UP \<noteq> (- fst (direction wall_collision_state), - snd (direction wall_collision_state))"
    by (simp add: wall_collision_state_def)
  with h run show ?thesis
    by blast
qed

text \<open>
  C8. The claim is that each extension step of the respawn draws its direction from the
  random source. The code draws from the one-element list \<open>[directions]\<close>, so a source
  whose \<open>choice\<close> returns an element of the sequence it is given hands back the whole list,
  and the loop extends the snake in the first direction of \<open>(1, 0)\<close>, \<open>(-1, 0)\<close>, \<open>(0, 1)\<close>,
  \<open>(0, -1)\<close> that leads to a free cell of the board, whatever state the source is in.
\<close>

theorem respawn_loop_fixed_direction_order:
  assumes "honest P"
    and "find (can_extend w h snk) [(1, 0), (-1, 0), (0, 1), (0, -1)] = Some d"
  shows "\<exists>rng1. choice_dirs P [[(1, 0), (-1, 0), (0, 1), (0, -1)]] rng =
                  Some ([(1, 0), (-1, 0), (0, 1), (0, -1)], rng1) \<and>
           respawn_loop (Suc n) w h P snk rng =
             respawn_loop n w h P (snk @ [(fst (last snk) + fst d, snd (last snk) + snd d)]) rng1"
proof -
  obtain rng1 where dirs: "choice_dirs P [directions] rng = Some (directions, rng1)"
    using assms(1) by (rule honest_dirs)
  from assms(2) have "find (can_extend w h snk) directions = Some d"
    by (simp only: directions_def)
  with dirs have "respawn_loop (Suc n) w h P snk rng =
      respawn_loop n w h P (snk @ [(fst (last snk) + fst d, snd (last snk) + snd d)]) rng1"
    by simp
  with dirs show ?thesis
    unfolding directions_def by blast
qed

theorem respawn_loop_fixed_direction_order_witness:
  "honest last_choice \<and>
   find (can_extend 4 4 [(3, 3)]) [(1, 0), (-1, 0), (0, 1), (0, -1)] = Some (-1, 0) \<and>
   respawn_loop (Suc 0) 4 4 last_choice [(3, 3)] () = Inr ([(3, 3), (2, 3)], ()) \<and>
   respawn_snake 4 4 2 last_choice () = Inr ([(3, 3), (2, 3)], ())"
proof -
  have f: "find (can_extend 4 4 [(3, 3)]) [(1, 0), (-1, 0), (0, 1), (0, -1)] = Some (-1, 0)"
    by (simp add: can_extend_def)
  from respawn_loop_fixed_direction_order[OF honest_last_choice f, of "()" 0]
  have "respawn_loop (Suc 0) 4 4 last_choice [(3, 3)] () = Inr ([(3, 3), (2, 3)], ())"
    by auto
  moreover have "respawn_snake 4 4 2 last_choice () = Inr ([(3, 3), (2, 3)], ())"
    by code_simp
  ultimately show ?thesis
    using honest_last_choice f by blast
qed

text \<open>
  C9. \<open>create_initial_state(width, height, rng)\<close> raises \<open>InvalidBoardError\<close> if and only if
  \<open>width < 4\<close> or \<open>height < 4\<close>. Every state it returns has the three segments
  \<open>(width div 2, height div 2)\<close>, \<open>(width div 2 - 1, height div 2)\<close>,
  \<open>(width div 2 - 2, height div 2)\<close> as its snake, direction \<open>RIGHT\<close>, score 0,
  \<open>lives = max_lives = 3\<close> and \<open>game_over = False\<close>, and with an honest source it does return
  one on a board of at least 4 by 4. Called with no explicit size it makes a 20 by 20
  board.
\<close>

theorem create_initial_state_spec:
  "(create_initial_state w h P rng = Inl InvalidBoardError \<longleftrightarrow> w < 4 \<or> h < 4) \<and>
   (\<forall>state rng'. create_initial_state w h P rng = Inr (state, rng') \<longrightarrow>
      state = \<lparr>width = w, height = h,
               snake = [(w div 2, h div 2), (w div 2 - 1, h div 2), (w div 2 - 2, h div 2)],
               food = food state, direction = RIGHT, score = 0, game_over = False,
               lives = 3, max_lives = 3\<rparr>) \<and>
   (4 \<le> w \<and> 4 \<le> h \<and> honest P \<longrightarrow>
      (\<exists>state rng'. create_initial_state w h P rng = Inr (state, rng'))) \<and>
   (\<forall>state rng'. create_initial_state_default P rng = Inr (state, rng') \<longrightarrow>
      width state = 20 \<and> height state = 20 \<and> lives state = 3) \<and>
   (honest P \<longrightarrow> (\<exists>state rng'. create_initial_state_default P rng = Inr (state, rng')))"
proof -
  have a: "create_initial_state w h P rng = Inl InvalidBoardError \<longleftrightarrow> w < 4 \<or> h < 4"
    by (auto simp: create_initial_state_def InvalidBoardError_def spawn_food_def Let_def
        split: sum.splits option.splits if_splits)
  have b: "\<forall>state rng'. create_initial_state w h P rng = Inr (state, rng') \<longrightarrow>
      state = \<lparr>width = w, height = h,
               snake = [(w div 2, h div 2), (w div 2 - 1, h div 2), (w div 2 - 2, h div 2)],
               food = food state, direction = RIGHT, score = 0, game_over = False,
               lives = 3, max_lives = 3\<rparr>"
    using create_initial_state_Inr[of w h P rng] unfolding initial_snake_eq by blast
  have c: "4 \<le> w \<and> 4 \<le> h \<and> honest P \<longrightarrow>
      (\<exists>state rng'. create_initial_state w h P rng = Inr (state, rng'))"
    using create_initial_state_ok[of P w h rng] by blast
  have d: "\<forall>state rng'. create_initial_state_default P rng = Inr (state, rng') \<longrightarrow>
      width state = 20 \<and> height state = 20 \<and> lives state = 3"
  proof (intro allI impI)
    fix state rng'
    assume "create_initial_state_default P rng = Inr (state, rng')"
    then have "create_initial_state 20 20 P rng = Inr (state, rng')"
      by (simp add: create_initial_state_default_def)
    from create_initial_state_Inr[OF this]
    have "state = \<lparr>width = 20, height = 20, snake = initial_snake 20 20, food = food state,
                    direction = RIGHT, score = 0, game_over = False, lives = 3,
                    max_lives = 3\<rparr>"
      by blast
    then have "width state = 20" "height state = 20" "lives state = 3"
      by (metis GameState.select_convs(1), metis GameState.select_convs(2),
          metis GameState.select_convs(8))
    then show "width state = 20 \<and> height state = 20 \<and> lives state = 3"
      by blast
  qed
  have e: "honest P \<longrightarrow> (\<exists>state rng'. create_initial_state_default P rng = Inr (state, rng'))"
    using create_initial_state_ok[of P 20 20 rng]
    by (auto simp: create_initial_state_default_def)
  from a b c d e show ?thesis
    by (intro conjI)
qed

theorem create_initial_state_spec_witness:
  "create_initial_state 3 4 first_choice () = Inl InvalidBoardError \<and>
   create_initial_state 4 3 first_choice () = Inl InvalidBoardError \<and>
   create_initial_state 4 4 first_choice () \<noteq> Inl InvalidBoardError \<and>
   honest first_choice \<and>
   create_initial_state 4 4 first_choice () =
     Inr (\<lparr>width = 4, height = 4, snake = [(2, 2), (1, 2), (0, 2)], food = (0, 0),
           direction = RIGHT, score = 0, game_over = False, lives = 3, max_lives = 3\<rparr>, ()) \<and>
   (\<exists>state rng'. create_initial_state_default first_choice () = Inr (state, rng') \<and>
      width state = 20 \<and> height state = 20 \<and> lives state = 3)"
proof -
  note spec = create_initial_state_spec[of _ _ first_choice "()"]
  have a: "create_initial_state 3 4 first_choice () = Inl InvalidBoardError"
    using spec[of 3 4] by simp
  have b: "create_initial_state 4 3 first_choice () = Inl InvalidBoardError"
    using spec[of 4 3] by simp
  have c: "create_initial_state 4 4 first_choice () \<noteq> Inl InvalidBoardError"
    using spec[of 4 4] by simp
  have d: "create_initial_state 4 4 first_choice () =
     Inr (\<lparr>width = 4, height = 4, snake = [(2, 2), (1, 2), (0, 2)], food = (0, 0),
           direction = RIGHT, score = 0, game_over = False, lives = 3, max_lives = 3\<rparr>, ())"
    by code_simp
  have e: "\<exists>state rng'. create_initial_state_default first_choice () = Inr (state, rng') \<and>
      width state = 20 \<and> height state = 20 \<and> lives state = 3"
    using spec[of 4 4] honest_first_choice by blast
  from a b c d e honest_first_choice show ?thesis
    by blast
qed

text \<open>
  C10. With a random source whose \<open>choice\<close> returns an element of the sequence it is given,
  \<open>_respawn_snake(width, height, length, rng)\<close> with \<open>width\<close>, \<open>height\<close>, \<open>length\<close> at least 1
  returns a snake: its points are pairwise distinct, all of them lie in
  \<open>[0, width) \<times> [0, height)\<close>, and its length is exactly \<open>min(length, width * height)\<close>, so
  the loop is never left early.
\<close>

theorem respawn_snake_distinct_on_board_full_length:
  assumes "honest P" and "1 \<le> w" and "1 \<le> h" and "1 \<le> len"
  shows "\<exists>snk rng'. respawn_snake w h len P rng = Inr (snk, rng') \<and> distinct snk \<and>
           (\<forall>(x, y) \<in> set snk. 0 \<le> x \<and> x < w \<and> 0 \<le> y \<and> y < h) \<and>
           int (length snk) = min len (w * h)"
proof -
  obtain snk rng' where r: "respawn_snake w h len P rng = Inr (snk, rng')"
    and l: "int (length snk) = min len (w * h)" and d: "distinct snk"
    and b: "set snk \<subseteq> {0..<w} \<times> {0..<h}"
    using respawn_snake_ok[OF assms, of rng] by blast
  from b have "\<forall>(x, y) \<in> set snk. 0 \<le> x \<and> x < w \<and> 0 \<le> y \<and> y < h"
    by auto
  with r l d show ?thesis
    by blast
qed

theorem respawn_snake_distinct_on_board_full_length_witness:
  "honest first_choice \<and> (1::int) \<le> 4 \<and> (1::int) \<le> 3 \<and>
   respawn_snake 4 4 3 first_choice () = Inr ([(0, 0), (1, 0), (2, 0)], ()) \<and>
   (\<exists>snk rng'. respawn_snake 4 4 3 first_choice () = Inr (snk, rng') \<and> distinct snk \<and>
      (\<forall>(x, y) \<in> set snk. 0 \<le> x \<and> x < 4 \<and> 0 \<le> y \<and> y < 4) \<and>
      int (length snk) = min 3 (4 * 4))"
proof -
  have run: "respawn_snake 4 4 3 first_choice () = Inr ([(0, 0), (1, 0), (2, 0)], ())"
    by code_simp
  show ?thesis
    using respawn_snake_distinct_on_board_full_length
            [OF honest_first_choice, of 4 4 3 "()"] honest_first_choice run
    by simp
qed

end
